theory Spec2Isabelle
  imports Complex_Main
begin

section \<open>mp\_blat: splitting an indexed FASTA file, running blat on the parts, merging\<close>

text \<open>
  A shallow embedding of \<^verbatim>\<open>src/mp_blat.py\<close>. Python integers are \<^typ>\<open>int\<close>,
  exceptions are values of \<open>py_error\<close> returned on the left of a sum, and every loop of
  the source is a recursive function over the list it iterates.
\<close>

subsection \<open>Exceptions\<close>

datatype py_error =
    NameError
  | TypeError
  | ValueError
  | ZeroDivisionError
  | IndexError
  | FileNotFoundError

text \<open>Sequencing of a step that may raise: the exception of the first step wins.\<close>

definition and_then :: "py_error + 'a \<Rightarrow> ('a \<Rightarrow> py_error + 'b) \<Rightarrow> py_error + 'b" where
  "and_then m f = (case m of Inl e \<Rightarrow> Inl e | Inr x \<Rightarrow> f x)"

text \<open>Python list indexing: a negative index counts from the end, out of range raises.\<close>

definition py_index :: "'a list \<Rightarrow> int \<Rightarrow> py_error + 'a" where
  "py_index xs i =
     (let n = int (length xs); j = (if i < 0 then i + n else i)
      in if 0 \<le> j \<and> j < n then Inr (xs ! nat j) else Inl IndexError)"

subsection \<open>class FastaIndex\<close>

text \<open>
  The fields after \<^verbatim>\<open>__init__\<close> has applied \<^verbatim>\<open>int\<close> to the four numeric arguments.
  The field \<^verbatim>\<open>length\<close> is \<open>length_f\<close> here (\<open>length\<close> is the list function).
\<close>

record FastaIndex =
  name :: string
  length_f :: int
  offset :: int
  line_bases :: int
  line_width :: int

text \<open>
  The property \<^verbatim>\<open>end_pos\<close>. \<^verbatim>\<open>divmod\<close> is floor division, as \<open>div\<close> and \<open>mod\<close> on
  \<^typ>\<open>int\<close> are, and raises on a zero divisor.
\<close>

definition end_pos :: "FastaIndex \<Rightarrow> py_error + int" where
  "end_pos r =
     (if line_bases r = 0 then Inl ZeroDivisionError
      else
        let num_lines = length_f r div line_bases r;
            rm = length_f r mod line_bases r;
            num_lines = (if rm > 0 then num_lines + 1 else num_lines)
        in Inr (offset r + length_f r + num_lines))"

subsection \<open>FastaFile.split: the split planner\<close>

text \<open>
  \<^verbatim>\<open>for i in range(remainder): num_list[i] += 1\<close>, over the indices of the range.
\<close>

fun add_one_each :: "int list \<Rightarrow> nat list \<Rightarrow> py_error + int list" where
  "add_one_each num_list [] = Inr num_list"
| "add_one_each num_list (i # is) =
     (if i < length num_list then add_one_each (num_list[i := num_list ! i + 1]) is
      else Inl IndexError)"

text \<open>
  Lines 114 to 117: the number of records of each part. \<^verbatim>\<open>[x] * n\<close> is empty for
  \<open>n \<le> 0\<close>, and so is \<^verbatim>\<open>range(n)\<close>.
\<close>

definition num_list :: "nat \<Rightarrow> int \<Rightarrow> py_error + int list" where
  "num_list n_records num_files =
     (if num_files = 0 then Inl ZeroDivisionError
      else
        let num_for_each_file = int n_records div num_files;
            remainder = int n_records mod num_files
        in add_one_each (replicate (nat num_files) num_for_each_file) [0..<nat remainder])"

text \<open>
  Lines 119 to 124: the loop over \<^verbatim>\<open>num_list[:-1]\<close>, with the running index \<open>idx\<close> and
  the positions appended so far.
\<close>

fun splice_loop :: "FastaIndex list \<Rightarrow> int \<Rightarrow> int list \<Rightarrow> int list \<Rightarrow> py_error + int list" where
  "splice_loop fa_idx_data idx [] splice_pos = Inr splice_pos"
| "splice_loop fa_idx_data idx (num # nums) splice_pos =
     and_then (py_index fa_idx_data (idx + num)) (\<lambda>r.
     and_then (end_pos r) (\<lambda>pos.
       splice_loop fa_idx_data (idx + num) nums (splice_pos @ [pos])))"

definition splice_pos :: "FastaIndex list \<Rightarrow> int list \<Rightarrow> py_error + int list" where
  "splice_pos fa_idx_data nums = splice_loop fa_idx_data (- 1) (butlast nums) []"

text \<open>Lines 127 to 131: the differences of neighbours in the extended position list.\<close>

definition block_size :: "int list \<Rightarrow> int list" where
  "block_size splice_pos_extend =
     map (\<lambda>(p1, p2). p1 - p2) (zip (tl splice_pos_extend) (butlast splice_pos_extend))"

record PartitionPlan =
  plan_num_list :: "int list"
  plan_splice_pos :: "int list"
  plan_block_size :: "int list"

text \<open>Lines 114 to 131 in the order the source evaluates them.\<close>

definition split_plan :: "FastaIndex list \<Rightarrow> int \<Rightarrow> py_error + PartitionPlan" where
  "split_plan fa_idx_data num_files =
     and_then (num_list (length fa_idx_data) num_files) (\<lambda>nums.
     and_then (splice_pos fa_idx_data nums) (\<lambda>sp.
     and_then (py_index fa_idx_data (- 1)) (\<lambda>lst.
     and_then (end_pos lst) (\<lambda>e.
       Inr \<lparr>plan_num_list = nums, plan_splice_pos = sp,
            plan_block_size = block_size ([0] @ sp @ [e])\<rparr>))))"

subsection \<open>Strings, lines and text files\<close>

text \<open>
  A file system maps a path to the content of the file there. Contents are strings over
  8-bit characters. Text mode is modelled for content in a single-byte encoding that
  extends ASCII, where a character is a byte: what remains of text mode is the universal
  newline translation on reading (\<^verbatim>\<open>open(path)\<close> with the default \<^verbatim>\<open>newline=None\<close>).
  Writing in text mode leaves the line feed as it is (the POSIX line separator).
  Directories and permissions are not part of the model.
\<close>

type_synonym path = string
type_synonym fs = "path \<Rightarrow> string option"

abbreviation LF :: char where "LF \<equiv> CHR 0x0A"
abbreviation CR :: char where "CR \<equiv> CHR 0x0D"
abbreviation TAB :: char where "TAB \<equiv> CHR 0x09"

fun universal_newlines :: "string \<Rightarrow> string" where
  "universal_newlines [] = []"
| "universal_newlines [c] = (if c = CR then [LF] else [c])"
| "universal_newlines (c # d # ds) =
     (if c = CR \<and> d = LF then LF # universal_newlines ds
      else if c = CR then LF # universal_newlines (d # ds)
      else c # universal_newlines (d # ds))"

text \<open>The characters on which every encoding that extends ASCII agrees.\<close>

definition is_ascii :: "char \<Rightarrow> bool" where
  "is_ascii c = (of_char c < (128::nat))"

text \<open>
  The lines a file object yields (by iteration or \<^verbatim>\<open>readline\<close>): each line keeps its
  line feed, the last one may have none.
\<close>

fun lines_from :: "string \<Rightarrow> string \<Rightarrow> string list" where
  "lines_from cur [] = (if cur = [] then [] else [cur])"
| "lines_from cur (c # cs) =
     (if c = LF then (cur @ [c]) # lines_from [] cs else lines_from (cur @ [c]) cs)"

definition readlines :: "string \<Rightarrow> string list" where
  "readlines s = lines_from [] s"

text \<open>\<^verbatim>\<open>line.rstrip('\n')\<close> and \<^verbatim>\<open>str.split(sep)\<close> for a separator of one character.\<close>

definition rstrip_nl :: "string \<Rightarrow> string" where
  "rstrip_nl s = rev (dropWhile (\<lambda>c. c = LF) (rev s))"

fun split_on :: "char \<Rightarrow> string \<Rightarrow> string list" where
  "split_on sep [] = [[]]"
| "split_on sep (c # cs) =
     (if c = sep then [] # split_on sep cs
      else (c # hd (split_on sep cs)) # tl (split_on sep cs))"

text \<open>\<^verbatim>\<open>str(i)\<close> of an integer, as the f-string of line 135 formats it.\<close>

fun str_nat :: "nat \<Rightarrow> string" where
  "str_nat n =
     (if n < 10 then [''0123456789'' ! n]
      else str_nat (n div 10) @ [''0123456789'' ! (n mod 10)])"

definition str_int :: "int \<Rightarrow> string" where
  "str_int i = (if i < 0 then CHR ''-'' # str_nat (nat (- i)) else str_nat (nat i))"

text \<open>\<^verbatim>\<open>os.path.basename\<close> and \<^verbatim>\<open>os.path.join\<close> of two components (posixpath).\<close>

definition basename :: "path \<Rightarrow> string" where
  "basename p = rev (takeWhile (\<lambda>c. c \<noteq> CHR ''/'') (rev p))"

definition path_join :: "path \<Rightarrow> string \<Rightarrow> path" where
  "path_join a b =
     (if b \<noteq> [] \<and> hd b = CHR ''/'' then b
      else if a = [] \<or> last a = CHR ''/'' then a @ b
      else a @ ''/'' @ b)"

subsection \<open>The builtin int on a string\<close>

text \<open>
  \<^verbatim>\<open>int(s)\<close> in base 10, as CPython parses it: white space around the literal, one
  optional sign, decimal digits with single underscores between them. Characters above
  127 are read as Latin-1, where two of them are white space and none is a digit. The
  interpreter refuses a literal of rest than \<open>max_str_digits\<close> digits when that limit is
  not 0 (it is 0 or at least 640; 4300 by default since Python 3.11, no limit before).
\<close>

definition is_space :: "char \<Rightarrow> bool" where
  "is_space c = (c \<in> set [CHR 0x09, CHR 0x0A, CHR 0x0B, CHR 0x0C, CHR 0x0D, CHR 0x20,
                           CHR 0x85, CHR 0xA0])"

definition is_digit :: "char \<Rightarrow> bool" where
  "is_digit c = (c \<in> set ''0123456789'')"

definition digit_val :: "char \<Rightarrow> nat" where
  "digit_val c = of_char c - 48"

definition digits_val :: "string \<Rightarrow> nat" where
  "digits_val ds = foldl (\<lambda>acc c. 10 * acc + digit_val c) 0 ds"

fun double_underscore :: "string \<Rightarrow> bool" where
  "double_underscore (c # d # ds) = ((c = CHR ''_'' \<and> d = CHR ''_'') \<or> double_underscore (d # ds))"
| "double_underscore _ = False"

text \<open>The sign in front of the digits: whether it is a minus, and the text after it.\<close>

definition strip_sign :: "string \<Rightarrow> bool \<times> string" where
  "strip_sign s =
     (if s \<noteq> [] \<and> hd s = CHR ''-'' then (True, tl s)
      else if s \<noteq> [] \<and> hd s = CHR ''+'' then (False, tl s)
      else (False, s))"

text \<open>
  The run of digits and underscores is accepted when it is not empty, neither starts nor
  ends with an underscore and has no two underscores in a row.
\<close>

definition valid_body :: "string \<Rightarrow> bool" where
  "valid_body body =
     (body \<noteq> [] \<and> hd body \<noteq> CHR ''_'' \<and> last body \<noteq> CHR ''_'' \<and> \<not> double_underscore body)"

definition over_limit :: "nat \<Rightarrow> nat \<Rightarrow> bool" where
  "over_limit max_str_digits n = (640 < n \<and> 0 < max_str_digits \<and> max_str_digits < n)"

definition py_int :: "nat \<Rightarrow> string \<Rightarrow> py_error + int" where
  "py_int max_str_digits s =
     (case strip_sign (dropWhile is_space s) of
        (neg, s2) \<Rightarrow>
          let body = takeWhile (\<lambda>c. is_digit c \<or> c = CHR ''_'') s2;
              rest = dropWhile (\<lambda>c. is_digit c \<or> c = CHR ''_'') s2;
              digits = filter is_digit body
          in if \<not> valid_body body \<or> dropWhile is_space rest \<noteq> [] then Inl ValueError
             else if over_limit max_str_digits (length digits) then Inl ValueError
             else Inr (if neg then - int (digits_val digits) else int (digits_val digits)))"

subsection \<open>Reading the index (lines 106 to 111)\<close>

text \<open>
  \<^verbatim>\<open>FastaIndex(*data)\<close>: any number of arguments but five is a TypeError of the call;
  with five, they are bound in order to \<open>name\<close>, \<open>length\<close>, \<open>offset\<close>, \<open>line_bases\<close> and
  \<open>line_width\<close>, and \<^verbatim>\<open>__init__\<close> converts the four numeric ones in that order.
\<close>

definition FastaIndex_init :: "nat \<Rightarrow> string list \<Rightarrow> py_error + FastaIndex" where
  "FastaIndex_init max_digits data =
     (if length data \<noteq> 5 then Inl TypeError
      else
        and_then (py_int max_digits (data ! 1)) (\<lambda>l.
        and_then (py_int max_digits (data ! 2)) (\<lambda>off.
        and_then (py_int max_digits (data ! 3)) (\<lambda>lb.
        and_then (py_int max_digits (data ! 4)) (\<lambda>lw.
          Inr \<lparr>name = data ! 0, length_f = l, offset = off, line_bases = lb,
               line_width = lw\<rparr>)))))"

definition parse_index_line :: "nat \<Rightarrow> string \<Rightarrow> py_error + FastaIndex" where
  "parse_index_line max_digits line = FastaIndex_init max_digits (split_on TAB (rstrip_nl line))"

fun parse_index_lines :: "nat \<Rightarrow> string list \<Rightarrow> FastaIndex list \<Rightarrow> py_error + FastaIndex list" where
  "parse_index_lines max_digits [] fa_idx_data = Inr fa_idx_data"
| "parse_index_lines max_digits (line # rest) fa_idx_data =
     and_then (parse_index_line max_digits line) (\<lambda>idx_data.
       parse_index_lines max_digits rest (fa_idx_data @ [idx_data]))"

text \<open>
  \<^verbatim>\<open>open(self.index_file)\<close>: a TypeError when the attribute is still None, a
  FileNotFoundError when there is no such file.
\<close>

definition read_index :: "nat \<Rightarrow> fs \<Rightarrow> path option \<Rightarrow> py_error + FastaIndex list" where
  "read_index max_digits files_now index_file_opt =
     (case index_file_opt of
        None \<Rightarrow> Inl TypeError
      | Some p \<Rightarrow>
          (case files_now p of
             None \<Rightarrow> Inl FileNotFoundError
           | Some content \<Rightarrow> parse_index_lines max_digits (readlines (universal_newlines content)) []))"

subsection \<open>The environment of a run\<close>

text \<open>
  What the program takes from outside its own text: the module namespace in which
  \<^verbatim>\<open>FastaFile.__init__\<close> looks up a global name, the interpreter's digit limit, what
  \<^verbatim>\<open>subprocess.run\<close> of a command line does to the files and the exit code it returns
  (\<open>None\<close> when the executable is not found), and the name of the directory that
  \<^verbatim>\<open>TemporaryDirectory\<close> creates.
\<close>

datatype pyobj = PyModule string | PyClass string | PyFunction string | PyValue string

record env =
  globals :: "string \<Rightarrow> pyobj option"
  int_max_str_digits :: nat
  sp_run :: "string list \<Rightarrow> fs \<Rightarrow> (fs \<times> int) option"
  tmp_dir_name :: path

text \<open>The names that the statements of the module bind at top level, in source order.\<close>

definition module_globals :: "string \<Rightarrow> pyobj option" where
  "module_globals = map_of
     [(''argparse'', PyModule ''argparse''), (''shlex'', PyModule ''shlex''),
      (''shutil'', PyModule ''shutil''), (''sp'', PyModule ''subprocess''),
      (''os'', PyModule ''os''), (''tp'', PyModule ''tempfile''),
      (''cf'', PyModule ''concurrent.futures''), (''logging'', PyModule ''logging''),
      (''partial'', PyClass ''functools.partial''),
      (''Blat'', PyClass ''Blat''), (''FastaIndex'', PyClass ''FastaIndex''),
      (''FastaFile'', PyClass ''FastaFile''), (''mp_blat'', PyFunction ''mp_blat''),
      (''create_parser'', PyFunction ''create_parser''),
      (''parser'', PyValue ''ArgumentParser''), (''args'', PyValue ''Namespace'')]"

subsection \<open>shlex.split\<close>

text \<open>
  The tokenizer of \<^verbatim>\<open>shlex.split(s)\<close> (POSIX mode, no comments, splitting on white
  space only): the state of the lexer, the state to return to after an escape, whether
  the token had a quote, the token so far, the input left.
\<close>

datatype lex_state = In_blank | In_word | In_quote char | In_escape

definition emit :: "string \<Rightarrow> py_error + string list \<Rightarrow> py_error + string list" where
  "emit token r = (case r of Inl e \<Rightarrow> Inl e | Inr ts \<Rightarrow> Inr (token # ts))"

fun read_tokens :: "lex_state \<Rightarrow> lex_state \<Rightarrow> bool \<Rightarrow> string \<Rightarrow> string \<Rightarrow> py_error + string list" where
  "read_tokens st esc quoted token [] =
     (case st of
        In_quote q \<Rightarrow> Inl ValueError
      | In_escape \<Rightarrow> Inl ValueError
      | _ \<Rightarrow> (if \<not> quoted \<and> token = [] then Inr [] else Inr [token]))"
| "read_tokens st esc quoted token (c # cs) =
     (case st of
        In_blank \<Rightarrow>
          (if c \<in> set [CHR 0x20, TAB, CR, LF] then
             (if token \<noteq> [] \<or> quoted then emit token (read_tokens In_blank In_blank False [] cs)
              else read_tokens In_blank esc quoted token cs)
           else if c = CHR 0x5C then read_tokens In_escape In_word quoted token cs
           else if c = CHR 0x27 \<or> c = CHR 0x22 then read_tokens (In_quote c) esc quoted token cs
           else read_tokens In_word esc quoted [c] cs)
      | In_quote q \<Rightarrow>
          (if c = q then read_tokens In_word esc True token cs
           else if c = CHR 0x5C \<and> q = CHR 0x22 then read_tokens In_escape (In_quote q) True token cs
           else read_tokens (In_quote q) esc True (token @ [c]) cs)
      | In_escape \<Rightarrow>
          (case esc of
             In_quote q \<Rightarrow>
               (if c \<noteq> CHR 0x5C \<and> c \<noteq> q
                then read_tokens esc esc quoted (token @ [CHR 0x5C, c]) cs
                else read_tokens esc esc quoted (token @ [c]) cs)
           | _ \<Rightarrow> read_tokens esc esc quoted (token @ [c]) cs)
      | In_word \<Rightarrow>
          (if c \<in> set [CHR 0x20, TAB, CR, LF] then
             (if token \<noteq> [] \<or> quoted then emit token (read_tokens In_blank In_blank False [] cs)
              else read_tokens In_blank esc quoted token cs)
           else if c = CHR 0x27 \<or> c = CHR 0x22 then read_tokens (In_quote c) esc quoted token cs
           else if c = CHR 0x5C then read_tokens In_escape In_word quoted token cs
           else read_tokens In_word esc quoted (token @ [c]) cs))"

definition shlex_split :: "string \<Rightarrow> py_error + string list" where
  "shlex_split s = read_tokens In_blank In_blank False [] s"

subsection \<open>class Blat\<close>

record Blat =
  blat_bin :: string
  blat_options :: "string list"

definition Blat_init :: "string \<Rightarrow> string \<Rightarrow> py_error + Blat" where
  "Blat_init bin options =
     and_then (shlex_split options) (\<lambda>opts. Inr \<lparr>blat_bin = bin, blat_options = opts\<rparr>)"

text \<open>
  \<^verbatim>\<open>Blat.__call__\<close>, that is \<^verbatim>\<open>_run\<close>: one run of the command line; the completed
  process is returned whatever its exit code is.
\<close>

definition Blat_call :: "env \<Rightarrow> fs \<Rightarrow> Blat \<Rightarrow> path \<Rightarrow> path \<Rightarrow> path \<Rightarrow> py_error + fs \<times> int" where
  "Blat_call ev files_now self ref_file fa_file out_file =
     (case sp_run ev ([blat_bin self, ref_file, fa_file, out_file] @ blat_options self) files_now of
        None \<Rightarrow> Inl FileNotFoundError
      | Some r \<Rightarrow> Inr r)"

subsection \<open>class FastaFile\<close>

record FastaFile =
  original_file :: path
  samtools_bin :: pyobj
  index_file :: "path option"
  files :: "path list option"
  original_filename :: string

text \<open>
  \<^verbatim>\<open>__init__\<close> has one parameter, \<^verbatim>\<open>fa_file\<close>; the name \<^verbatim>\<open>samtools_bin\<close> on the right
  of line 65 is neither local nor of an enclosing function, so it is looked up in the
  module namespace (no builtin has that name).
\<close>

definition FastaFile_init :: "(string \<Rightarrow> pyobj option) \<Rightarrow> path \<Rightarrow> py_error + FastaFile" where
  "FastaFile_init g fa_file =
     (case g ''samtools_bin'' of
        None \<Rightarrow> Inl NameError
      | Some v \<Rightarrow>
          Inr \<lparr>original_file = fa_file, samtools_bin = v, index_file = None, files = None,
               original_filename = basename fa_file\<rparr>)"

definition has_index :: "fs \<Rightarrow> FastaFile \<Rightarrow> FastaFile \<times> bool" where
  "has_index files_now self =
     (if files_now (original_file self @ ''.fai'') \<noteq> None
      then (self\<lparr>index_file := Some (original_file self @ ''.fai'')\<rparr>, True)
      else (self, False))"

definition create_index :: "env \<Rightarrow> fs \<Rightarrow> FastaFile \<Rightarrow> string \<Rightarrow> py_error + fs \<times> FastaFile \<times> int" where
  "create_index ev files_now self samtools =
     (case sp_run ev [samtools, ''faidx'', original_file self] files_now of
        None \<Rightarrow> Inl FileNotFoundError
      | Some (files_after, returncode) \<Rightarrow>
          Inr (files_after,
               if returncode = 0 then self\<lparr>index_file := Some (original_file self @ ''.fai'')\<rparr>
               else self,
               returncode))"

text \<open>Lines 94 to 101: the index is generated only when there is none.\<close>

definition find_index :: "env \<Rightarrow> fs \<Rightarrow> FastaFile \<Rightarrow> string \<Rightarrow> py_error + fs \<times> FastaFile" where
  "find_index ev files_now self samtools =
     (case has_index files_now self of
        (self1, True) \<Rightarrow> Inr (files_now, self1)
      | (self1, False) \<Rightarrow>
          and_then (create_index ev files_now self1 samtools)
            (\<lambda>(files_after, self2, returncode). Inr (files_after, self2)))"

text \<open>Lines 134 to 137: the names of the part files.\<close>

definition part_files :: "path \<Rightarrow> string \<Rightarrow> int \<Rightarrow> path list" where
  "part_files work_dir filename num_files =
     map (\<lambda>i. path_join work_dir (filename @ ''.part_'' @ str_int i)) [1..num_files]"

text \<open>
  Lines 141 to 143: \<^verbatim>\<open>fa_in.read(bsize)\<close> takes the next \<open>bsize\<close> characters of what is
  left of the source text, or all of it when \<open>bsize\<close> is negative; the part file is
  created or truncated and receives them.
\<close>

fun write_blocks :: "fs \<Rightarrow> string \<Rightarrow> (path \<times> int) list \<Rightarrow> fs" where
  "write_blocks files_now left [] = files_now"
| "write_blocks files_now left ((file, bsize) # rest) =
     (if bsize < 0 then write_blocks (files_now(file \<mapsto> left)) [] rest
      else write_blocks (files_now(file \<mapsto> take (nat bsize) left)) (drop (nat bsize) left) rest)"

text \<open>
  \<^verbatim>\<open>FastaFile.split\<close>. The result is the file system afterwards and either the exception
  raised or the object with its attributes \<^verbatim>\<open>index_file\<close> and \<^verbatim>\<open>files\<close> set.
\<close>

definition split :: "env \<Rightarrow> fs \<Rightarrow> FastaFile \<Rightarrow> int \<Rightarrow> path \<Rightarrow> string \<Rightarrow> fs \<times> (py_error + FastaFile)" where
  "split ev files_now self num_files work_dir samtools =
     (case find_index ev files_now self samtools of
        Inl e \<Rightarrow> (files_now, Inl e)
      | Inr (files1, self1) \<Rightarrow>
          (case and_then (read_index (int_max_str_digits ev) files1 (index_file self1))
                  (\<lambda>fa_idx_data. split_plan fa_idx_data num_files) of
             Inl e \<Rightarrow> (files1, Inl e)
           | Inr plan \<Rightarrow>
               let self2 = self1\<lparr>files :=
                     Some (part_files work_dir (original_filename self1) num_files)\<rparr>
               in (case files1 (original_file self2) of
                     None \<Rightarrow> (files1, Inl FileNotFoundError)
                   | Some content \<Rightarrow>
                       (write_blocks files1 (universal_newlines content)
                          (zip (part_files work_dir (original_filename self1) num_files)
                               (plan_block_size plan)),
                        Inr self2))))"

subsection \<open>mp\_blat\<close>

text \<open>
  Lines 177 and 178: the pool runs one call per pair of part file and result file. The
  iterator that \<^verbatim>\<open>executor.map\<close> returns is never consumed, so neither an exit code nor
  an exception of a call reaches the caller. The calls are modelled one after the other,
  in partition order. A pool of no or negatively many workers is a ValueError.
\<close>

fun pool_map :: "env \<Rightarrow> fs \<Rightarrow> Blat \<Rightarrow> path \<Rightarrow> (path \<times> path) list \<Rightarrow> fs" where
  "pool_map ev files_now blat reference_file [] = files_now"
| "pool_map ev files_now blat reference_file ((fa, out) # rest) =
     (case Blat_call ev files_now blat reference_file fa out of
        Inl e \<Rightarrow> pool_map ev files_now blat reference_file rest
      | Inr (files_after, returncode) \<Rightarrow> pool_map ev files_after blat reference_file rest)"

definition run_pool :: "env \<Rightarrow> fs \<Rightarrow> Blat \<Rightarrow> path \<Rightarrow> int \<Rightarrow> path list \<Rightarrow> path list \<Rightarrow> py_error + fs" where
  "run_pool ev files_now blat reference_file num_proc fa_files out_files =
     (if num_proc \<le> 0 then Inl ValueError
      else Inr (pool_map ev files_now blat reference_file (zip fa_files out_files)))"

text \<open>
  Lines 180 to 191, the merge. The header is what five calls of \<^verbatim>\<open>readline\<close> return on
  the first result file, \<open>res_start_pos\<close> is the offset after them, and every result file
  is copied from that offset on. The output file is created or truncated first; the model
  reads the result files as they are at that moment, which is exact when the output path
  is not one of them.
\<close>

definition header_lines :: "string \<Rightarrow> string" where
  "header_lines content = concat (take 5 (readlines content))"

fun copy_results :: "fs \<Rightarrow> nat \<Rightarrow> path list \<Rightarrow> string \<Rightarrow> string \<times> py_error option" where
  "copy_results files_now res_start_pos [] out = (out, None)"
| "copy_results files_now res_start_pos (file # rest) out =
     (case files_now file of
        None \<Rightarrow> (out, Some FileNotFoundError)
      | Some content \<Rightarrow>
          copy_results files_now res_start_pos rest (out @ drop res_start_pos content))"

definition merge_results :: "fs \<Rightarrow> path \<Rightarrow> path list \<Rightarrow> fs \<times> (py_error + unit)" where
  "merge_results files_now output_file out_files =
     (let files1 = files_now(output_file \<mapsto> []) in
      case py_index out_files 0 of
        Inl e \<Rightarrow> (files1, Inl e)
      | Inr first_file \<Rightarrow>
          (case files1 first_file of
             None \<Rightarrow> (files1, Inl FileNotFoundError)
           | Some content \<Rightarrow>
               let header = header_lines content;
                   res_start_pos = length header;
                   (out, err) = copy_results files1 res_start_pos out_files header
               in (files1(output_file \<mapsto> out),
                   case err of None \<Rightarrow> Inr () | Some e \<Rightarrow> Inl e)))"

text \<open>Lines 170 to 191: the branch taken when \<open>num_proc\<close> is not 1.\<close>

definition split_pool_merge ::
  "env \<Rightarrow> fs \<Rightarrow> Blat \<Rightarrow> path \<Rightarrow> path \<Rightarrow> path \<Rightarrow> int \<Rightarrow> string \<Rightarrow> fs \<times> (py_error + unit)" where
  "split_pool_merge ev files_now blat reference_file fasta_file output_file num_proc samtools =
     (case FastaFile_init (globals ev) fasta_file of
        Inl e \<Rightarrow> (files_now, Inl e)
      | Inr fa_file0 \<Rightarrow>
          (case split ev files_now fa_file0 num_proc (tmp_dir_name ev) samtools of
             (files1, Inl e) \<Rightarrow> (files1, Inl e)
           | (files1, Inr fa_file) \<Rightarrow>
               let fa_files = (case files fa_file of Some fl \<Rightarrow> fl | None \<Rightarrow> []);
                   out_files = map (\<lambda>file. file @ ''.psl'') fa_files
               in (case run_pool ev files1 blat reference_file num_proc fa_files out_files of
                     Inl e \<Rightarrow> (files1, Inl e)
                   | Inr files2 \<Rightarrow> merge_results files2 output_file out_files)))"

text \<open>
  \<^verbatim>\<open>mp_blat\<close>. The parameter \<^verbatim>\<open>tmp_path\<close> is not used by the source. With
  \<open>num_proc = 1\<close> the result of the single call is dropped.
\<close>

definition mp_blat ::
  "env \<Rightarrow> fs \<Rightarrow> path \<Rightarrow> path \<Rightarrow> path \<Rightarrow> int \<Rightarrow> path \<Rightarrow> string \<Rightarrow> string \<Rightarrow> string
     \<Rightarrow> fs \<times> (py_error + unit)" where
  "mp_blat ev files_now reference_file fasta_file output_file num_proc tmp_path
     blat_bin_arg blat_options_arg samtools =
     (case Blat_init blat_bin_arg blat_options_arg of
        Inl e \<Rightarrow> (files_now, Inl e)
      | Inr blat \<Rightarrow>
          if num_proc = 1 then
            (case Blat_call ev files_now blat reference_file fasta_file output_file of
               Inl e \<Rightarrow> (files_now, Inl e)
             | Inr (files_after, returncode) \<Rightarrow> (files_after, Inr ()))
          else split_pool_merge ev files_now blat reference_file fasta_file output_file
                 num_proc samtools)"

subsection \<open>Example files\<close>

text \<open>
  Data for the closed theorems below: an environment without external programs, a FASTA
  file of three records with line feeds and its index as \<^verbatim>\<open>samtools faidx\<close> writes it,
  the same kind of file with two records and CR LF line ends, and the object that
  \<^verbatim>\<open>FastaFile('x.fa')\<close> would be.
\<close>

abbreviation (input) no_programs :: env where
  "no_programs \<equiv> \<lparr>globals = module_globals, int_max_str_digits = 4300,
                   sp_run = (\<lambda>argv files_now. None), tmp_dir_name = ''./mp_blat_tmp.k3x9''\<rparr>"

abbreviation (input) lf_fasta :: string where
  "lf_fasta \<equiv> ''>s1'' @ [LF] @ ''ACGTAC'' @ [LF] @ ''GT'' @ [LF] @ ''>s2'' @ [LF] @ ''AC'' @ [LF]
               @ ''>s3'' @ [LF] @ ''ACGTAC'' @ [LF]"

abbreviation (input) lf_fai :: string where
  "lf_fai \<equiv> ''s1'' @ [TAB] @ ''8'' @ [TAB] @ ''4'' @ [TAB] @ ''6'' @ [TAB] @ ''7'' @ [LF]
             @ ''s2'' @ [TAB] @ ''2'' @ [TAB] @ ''18'' @ [TAB] @ ''2'' @ [TAB] @ ''3'' @ [LF]
             @ ''s3'' @ [TAB] @ ''6'' @ [TAB] @ ''25'' @ [TAB] @ ''6'' @ [TAB] @ ''7'' @ [LF]"

abbreviation (input) lf_index :: "FastaIndex list" where
  "lf_index \<equiv>
     [\<lparr>name = ''s1'', length_f = 8, offset = 4, line_bases = 6, line_width = 7\<rparr>,
      \<lparr>name = ''s2'', length_f = 2, offset = 18, line_bases = 2, line_width = 3\<rparr>,
      \<lparr>name = ''s3'', length_f = 6, offset = 25, line_bases = 6, line_width = 7\<rparr>]"

abbreviation (input) crlf_fasta :: string where
  "crlf_fasta \<equiv> ''>a'' @ [CR, LF] @ ''ACGT'' @ [CR, LF] @ ''>b'' @ [CR, LF] @ ''ACGT'' @ [CR, LF]"

abbreviation (input) crlf_fai :: string where
  "crlf_fai \<equiv> ''a'' @ [TAB] @ ''4'' @ [TAB] @ ''4'' @ [TAB] @ ''4'' @ [TAB] @ ''6'' @ [LF]
               @ ''b'' @ [TAB] @ ''4'' @ [TAB] @ ''14'' @ [TAB] @ ''4'' @ [TAB] @ ''6'' @ [LF]"

abbreviation (input) x_fa :: FastaFile where
  "x_fa \<equiv> \<lparr>original_file = ''x.fa'', samtools_bin = PyValue ''samtools'', index_file = None,
            files = None, original_filename = ''x.fa''\<rparr>"

section \<open>Sequencing and indexing\<close>

lemma and_then_Inr_iff:
  "and_then m f = Inr y \<longleftrightarrow> (\<exists>x. m = Inr x \<and> f x = Inr y)"
  by (cases m) (simp_all add: and_then_def)

lemma and_then_Inr [simp]: "and_then (Inr x) f = f x"
  by (simp add: and_then_def)

lemma and_then_Inl [simp]: "and_then (Inl e) f = Inl e"
  by (simp add: and_then_def)

lemma py_index_mem: "py_index xs i = Inr x \<Longrightarrow> x \<in> set xs"
  by (auto simp: py_index_def Let_def split: if_splits)

lemma py_index_last: "xs \<noteq> [] \<Longrightarrow> py_index xs (- 1) = Inr (last xs)"
  by (simp add: py_index_def Let_def last_conv_nth nat_diff_distrib' of_nat_diff flip: of_nat_Suc)

lemma py_index_nth: "0 \<le> i \<Longrightarrow> i < int (length xs) \<Longrightarrow> py_index xs i = Inr (xs ! nat i)"
  by (simp add: py_index_def Let_def)

section \<open>Properties of the index record\<close>

lemma ceil_div_floor:
  fixes a b :: int
  assumes "0 < b"
  shows "- (- a div b) = (if a mod b > 0 then a div b + 1 else a div b)"
proof (cases "a mod b = 0")
  case True
  then have "b dvd a" by (simp add: dvd_eq_mod_eq_0)
  then have "- a div b = - (a div b)" by (rule dvd_neg_div)
  with True show ?thesis by simp
next
  case False
  moreover have "0 \<le> a mod b" using assms by simp
  ultimately have "0 < a mod b" by linarith
  with False assms show ?thesis by (simp add: zdiv_zminus1_eq_if)
qed

text \<open>
  C8. For every index record with \<open>line_bases > 0\<close>, \<open>end_pos\<close> is
  \<open>offset + length + ceil(length / line_bases)\<close>, the quotient taken in the reals. In
  particular a record of length 100 with 50 bases a line ends at \<open>offset + 102\<close>, whatever
  its offset. In the scenario of four such records cut into two parts, the records lie one
  after the other in the file, each data block \<open>h\<close> bytes (its header line) after the end
  of the record before it, the first at offset \<open>h\<close> (the spec's offset 0 is \<open>h = 0\<close>);
  then both blocks have the same size, that of two records.
\<close>

theorem end_pos_formula:
  "(0 < line_bases r \<longrightarrow>
      end_pos r = Inr (offset r + length_f r
                        + \<lceil>real_of_int (length_f r) / real_of_int (line_bases r)\<rceil>))
   \<and> (length_f r = 100 \<and> line_bases r = 50 \<longrightarrow> end_pos r = Inr (offset r + 102))
   \<and> map_sum id plan_block_size
         (split_plan
            [\<lparr>name = n1, length_f = 100, offset = h, line_bases = 50, line_width = 51\<rparr>,
             \<lparr>name = n2, length_f = 100, offset = h + (102 + h), line_bases = 50,
                line_width = 51\<rparr>,
             \<lparr>name = n3, length_f = 100, offset = h + 2 * (102 + h), line_bases = 50,
                line_width = 51\<rparr>,
             \<lparr>name = n4, length_f = 100, offset = h + 3 * (102 + h), line_bases = 50,
                line_width = 51\<rparr>]
            2) = Inr [2 * (102 + h), 2 * (102 + h)]"
proof (intro conjI impI)
  assume pos: "0 < line_bases r"
  have "\<lceil>real_of_int (length_f r) / real_of_int (line_bases r)\<rceil>
          = - (- length_f r div line_bases r)"
    by (rule ceiling_divide_eq_div)
  also have "\<dots> = (if length_f r mod line_bases r > 0 then length_f r div line_bases r + 1
                    else length_f r div line_bases r)"
    using pos by (rule ceil_div_floor)
  finally show "end_pos r = Inr (offset r + length_f r
                        + \<lceil>real_of_int (length_f r) / real_of_int (line_bases r)\<rceil>)"
    using pos by (simp add: end_pos_def Let_def)
next
  assume "length_f r = 100 \<and> line_bases r = 50"
  then show "end_pos r = Inr (offset r + 102)"
    by (simp add: end_pos_def Let_def)
next
  show "map_sum id plan_block_size
         (split_plan
            [\<lparr>name = n1, length_f = 100, offset = h, line_bases = 50, line_width = 51\<rparr>,
             \<lparr>name = n2, length_f = 100, offset = h + (102 + h), line_bases = 50,
                line_width = 51\<rparr>,
             \<lparr>name = n3, length_f = 100, offset = h + 2 * (102 + h), line_bases = 50,
                line_width = 51\<rparr>,
             \<lparr>name = n4, length_f = 100, offset = h + 3 * (102 + h), line_bases = 50,
                line_width = 51\<rparr>]
            2) = Inr [2 * (102 + h), 2 * (102 + h)]"
    by (simp add: split_plan_def num_list_def splice_pos_def and_then_def py_index_def
        numeral_2_eq_2 end_pos_def block_size_def Let_def)
qed

theorem end_pos_formula_witness:
  "end_pos \<lparr>name = ''seq1'', length_f = 100, offset = 0, line_bases = 50, line_width = 51\<rparr>
     = Inr 102
   \<and> map_sum id plan_block_size
         (split_plan
            [\<lparr>name = ''seq1'', length_f = 100, offset = 0, line_bases = 50, line_width = 51\<rparr>,
             \<lparr>name = ''seq2'', length_f = 100, offset = 102, line_bases = 50, line_width = 51\<rparr>,
             \<lparr>name = ''seq3'', length_f = 100, offset = 204, line_bases = 50, line_width = 51\<rparr>,
             \<lparr>name = ''seq4'', length_f = 100, offset = 306, line_bases = 50, line_width = 51\<rparr>]
            2) = Inr [204, 204]"
  using end_pos_formula
    [of "\<lparr>name = ''seq1'', length_f = 100, offset = 0, line_bases = 50, line_width = 51\<rparr>"
        "''seq1''" 0 "''seq2''" "''seq3''" "''seq4''"]
  by simp

section \<open>The split planner\<close>

lemma block_size_Cons2: "block_size (x # y # ys) = (y - x) # block_size (y # ys)"
  by (simp add: block_size_def)

lemma block_size_single: "block_size [x] = []"
  by (simp add: block_size_def)

lemma sum_list_block_size: "sum_list (block_size (x # xs)) = last (x # xs) - x"
proof (induction xs arbitrary: x)
  case Nil
  then show ?case by (simp add: block_size_single)
next
  case (Cons y ys)
  then show ?case by (simp add: block_size_Cons2)
qed

lemma length_block_size: "length (block_size xs) = length xs - 1"
  by (simp add: block_size_def)

lemma splice_loop_end_pos:
  "splice_loop fa idx nums acc = Inr sp \<Longrightarrow>
   \<forall>p\<in>set acc. \<exists>r\<in>set fa. end_pos r = Inr p \<Longrightarrow>
   \<forall>p\<in>set sp. \<exists>r\<in>set fa. end_pos r = Inr p"
proof (induction nums arbitrary: idx acc)
  case Nil
  then show ?case by simp
next
  case (Cons n nums)
  from Cons.prems(1) obtain r pos where
    r: "py_index fa (idx + n) = Inr r" and pos: "end_pos r = Inr pos"
    and loop: "splice_loop fa (idx + n) nums (acc @ [pos]) = Inr sp"
    by (auto simp: and_then_Inr_iff)
  have "r \<in> set fa" using r by (rule py_index_mem)
  with pos Cons.prems(2) have "\<forall>p\<in>set (acc @ [pos]). \<exists>r\<in>set fa. end_pos r = Inr p"
    by auto
  from Cons.IH[OF loop this] show ?case .
qed

lemma splice_loop_length:
  "splice_loop fa idx nums acc = Inr sp \<Longrightarrow> length sp = length acc + length nums"
proof (induction nums arbitrary: idx acc)
  case Nil
  then show ?case by simp
next
  case (Cons n nums)
  from Cons.prems(1) obtain r pos where
    loop: "splice_loop fa (idx + n) nums (acc @ [pos]) = Inr sp"
    by (auto simp: and_then_Inr_iff)
  from Cons.IH[OF loop] show ?case by simp
qed

text \<open>The loop returns when the running index stays inside the index.\<close>

lemma splice_loop_returns:
  assumes "\<forall>r\<in>set fa. line_bases r \<noteq> 0"
    and "\<forall>n\<in>set nums. 0 \<le> n"
    and "nums \<noteq> [] \<longrightarrow> 0 \<le> idx + hd nums"
    and "idx + sum_list nums < int (length fa)"
  shows "\<exists>sp. splice_loop fa idx nums acc = Inr sp"
  using assms(2-)
proof (induction nums arbitrary: idx acc)
  case Nil
  then show ?case by simp
next
  case (Cons n nums)
  have lo: "0 \<le> idx + n" using Cons.prems(2) by simp
  have "0 \<le> sum_list nums" using Cons.prems(1) by (intro sum_list_nonneg) simp
  then have hi: "idx + n < int (length fa)" using Cons.prems(3) by simp
  have r: "py_index fa (idx + n) = Inr (fa ! nat (idx + n))"
    using lo hi by (rule py_index_nth)
  have "fa ! nat (idx + n) \<in> set fa" using lo hi by (intro nth_mem) simp
  with assms(1) have "line_bases (fa ! nat (idx + n)) \<noteq> 0" by blast
  then obtain pos where pos: "end_pos (fa ! nat (idx + n)) = Inr pos"
    by (simp add: end_pos_def Let_def)
  have "\<exists>sp. splice_loop fa (idx + n) nums (acc @ [pos]) = Inr sp"
  proof (rule Cons.IH)
    show "\<forall>n\<in>set nums. 0 \<le> n" using Cons.prems(1) by simp
    show "nums \<noteq> [] \<longrightarrow> 0 \<le> idx + n + hd nums"
      using lo Cons.prems(1) by (cases nums) auto
    show "idx + n + sum_list nums < int (length fa)" using Cons.prems(3) by (simp add: add.assoc)
  qed
  then show ?case using r pos by simp
qed

lemma add_one_each_upt:
  "k \<le> length xs \<Longrightarrow>
   add_one_each xs [j..<k]
     = Inr (map (\<lambda>i. if j \<le> i \<and> i < k then xs ! i + 1 else xs ! i) [0..<length xs])"
proof (induction "k - j" arbitrary: j xs)
  case 0
  then have e: "[j..<k] = []" by simp
  have m: "map (\<lambda>i. if j \<le> i \<and> i < k then xs ! i + 1 else xs ! i) [0..<length xs] = xs"
    using 0 by (intro nth_equalityI) auto
  show ?case unfolding e m by simp
next
  case (Suc d)
  then have jk: "j < k" by simp
  then have upt: "[j..<k] = j # [Suc j..<k]" by (simp add: upt_conv_Cons)
  let ?ys = "xs[j := xs ! j + 1]"
  have len: "k \<le> length ?ys" using Suc.prems by simp
  have d: "d = k - Suc j" using Suc.hyps(2) by simp
  have "add_one_each xs [j..<k] = add_one_each ?ys [Suc j..<k]"
    using jk Suc.prems upt by simp
  also have "\<dots> = Inr (map (\<lambda>i. if Suc j \<le> i \<and> i < k then ?ys ! i + 1 else ?ys ! i)
                        [0..<length ?ys])"
    using Suc.hyps(1)[OF d len] .
  also have "map (\<lambda>i. if Suc j \<le> i \<and> i < k then ?ys ! i + 1 else ?ys ! i) [0..<length ?ys]
             = map (\<lambda>i. if j \<le> i \<and> i < k then xs ! i + 1 else xs ! i) [0..<length xs]"
    using jk Suc.prems by (intro nth_equalityI) (auto simp: nth_list_update)
  finally show ?case .
qed

lemma num_list_eq:
  assumes "1 \<le> num_files"
  shows "num_list R num_files
           = Inr (map (\<lambda>i. if int i < int R mod num_files then int R div num_files + 1
                            else int R div num_files) [0..<nat num_files])"
proof -
  let ?b = "int R div num_files" and ?r = "int R mod num_files"
  have r: "0 \<le> ?r" "?r < num_files" using assms by simp_all
  then have le: "nat ?r \<le> length (replicate (nat num_files) ?b)" by simp
  have "num_list R num_files = add_one_each (replicate (nat num_files) ?b) [0..<nat ?r]"
    using assms by (simp add: num_list_def Let_def)
  also have "\<dots> = Inr (map (\<lambda>i. if 0 \<le> i \<and> i < nat ?r then replicate (nat num_files) ?b ! i + 1
                                 else replicate (nat num_files) ?b ! i)
                         [0..<length (replicate (nat num_files) ?b)])"
    by (rule add_one_each_upt[OF le])
  also have "map (\<lambda>i. if 0 \<le> i \<and> i < nat ?r then replicate (nat num_files) ?b ! i + 1
                                 else replicate (nat num_files) ?b ! i)
                         [0..<length (replicate (nat num_files) ?b)]
             = map (\<lambda>i. if int i < ?r then ?b + 1 else ?b) [0..<nat num_files]"
    using r by (intro nth_equalityI) auto
  finally show ?thesis .
qed

lemma sum_list_all_plus_one:
  "n \<le> r \<Longrightarrow> sum_list (map (\<lambda>i. if i < r then b + 1 else b) [0..<n]) = int n * (b + 1)"
  for b :: int
  by (induction n) (simp_all add: algebra_simps)

lemma sum_list_front_loaded:
  "r \<le> n \<Longrightarrow> sum_list (map (\<lambda>i. if i < r then b + 1 else b) [0..<n]) = int n * b + int r" for b :: int
proof (induction n)
  case 0
  then show ?case by simp
next
  case (Suc n)
  show ?case
  proof (cases "r = Suc n")
    case True
    then have "sum_list (map (\<lambda>i. if i < r then b + 1 else b) [0..<n]) = int n * (b + 1)"
      by (intro sum_list_all_plus_one) simp
    with True show ?thesis by (simp add: algebra_simps)
  next
    case False
    with Suc.prems have "r \<le> n" by simp
    from Suc.IH[OF this] \<open>r \<le> n\<close> show ?thesis by (simp add: algebra_simps)
  qed
qed

lemma sum_list_num_list:
  assumes "1 \<le> num_files"
  shows "sum_list (map (\<lambda>i. if int i < int R mod num_files then int R div num_files + 1
                              else int R div num_files) [0..<nat num_files]) = int R"
proof -
  let ?b = "int R div num_files" and ?r = "int R mod num_files"
  let ?nums = "map (\<lambda>i. if int i < ?r then ?b + 1 else ?b) [0..<nat num_files]"
  have r: "0 \<le> ?r" "?r < num_files" using assms by simp_all
  have m: "?nums = map (\<lambda>i. if i < nat ?r then ?b + 1 else ?b) [0..<nat num_files]"
    using r by (intro map_cong) auto
  have le: "nat ?r \<le> nat num_files" using r by simp
  have s1: "sum_list (map (\<lambda>i. if i < nat ?r then ?b + 1 else ?b) [0..<nat num_files])
              = int (nat num_files) * ?b + int (nat ?r)"
    using le by (rule sum_list_front_loaded)
  have s2: "int (nat num_files) * ?b + int (nat ?r) = int R"
    using r assms by simp
  show ?thesis by (simp only: m s1 s2)
qed

text \<open>
  C7. For every record count \<open>R\<close> and partition count \<open>P\<close> with \<open>1 \<le> P \<le> R\<close>, and
  base and remainder the quotient and remainder of \<open>R\<close> by \<open>P\<close>, the planner gives
  \<open>base + 1\<close> records to each of the first \<open>remainder\<close> partitions and \<open>base\<close> to every
  other one; the counts add up to \<open>R\<close>, the largest and the smallest differ by at most 1,
  and 5 records in 3 partitions are counted \<open>[2, 2, 1]\<close>.
\<close>

theorem num_list_balanced:
  "(1 \<le> num_files \<and> num_files \<le> int R \<longrightarrow>
      (\<exists>nums. num_list R num_files = Inr nums
         \<and> length nums = nat num_files
         \<and> (\<forall>i < nat num_files.
               nums ! i = (if int i < int R mod num_files then int R div num_files + 1
                           else int R div num_files))
         \<and> sum_list nums = int R
         \<and> Max (set nums) - Min (set nums) \<le> 1))
   \<and> num_list 5 3 = Inr [2, 2, 1]"
proof (intro conjI impI)
  assume a: "1 \<le> num_files \<and> num_files \<le> int R"
  let ?b = "int R div num_files" and ?r = "int R mod num_files"
  let ?nums = "map (\<lambda>i. if int i < ?r then ?b + 1 else ?b) [0..<nat num_files]"
  have eq: "num_list R num_files = Inr ?nums" using a by (intro num_list_eq) simp
  have r: "0 \<le> ?r" "?r < num_files" using a by simp_all
  have "[0..<nat num_files] \<noteq> []" using a by simp
  then have "?nums \<noteq> []" by (simp only: map_is_Nil_conv not_False_eq_True)
  then have ne: "set ?nums \<noteq> {}" by (simp only: set_empty not_False_eq_True)
  have "Max (set ?nums) \<le> ?b + 1" using ne by (subst Max_le_iff) auto
  moreover have "?b \<le> Min (set ?nums)" using ne by (subst Min_ge_iff) auto
  ultimately have bal: "Max (set ?nums) - Min (set ?nums) \<le> 1" by linarith
  have sum: "sum_list ?nums = int R" using a by (intro sum_list_num_list) simp
  show "\<exists>nums. num_list R num_files = Inr nums
         \<and> length nums = nat num_files
         \<and> (\<forall>i < nat num_files.
               nums ! i = (if int i < int R mod num_files then int R div num_files + 1
                           else int R div num_files))
         \<and> sum_list nums = int R
         \<and> Max (set nums) - Min (set nums) \<le> 1"
    using eq bal sum by (intro exI[of _ ?nums]) simp
next
  show "num_list 5 3 = Inr [2, 2, 1]"
    by (simp add: num_list_def Let_def numeral_3_eq_3 numeral_2_eq_2 upt_rec)
qed

theorem num_list_balanced_witness:
  "num_list 7 3 = Inr [3, 2, 2] \<and> num_list 5 3 = Inr [2, 2, 1]"
proof -
  from num_list_balanced[of 3 7] obtain nums where
    n: "num_list 7 3 = Inr nums" "length nums = nat 3"
       "\<forall>i < nat 3. nums ! i = (if int i < int 7 mod 3 then int 7 div 3 + 1 else int 7 div 3)"
    by auto
  have "nums = [3, 2, 2]"
    using n(2,3) by (intro nth_equalityI) (auto simp: less_Suc_eq numeral_3_eq_3)
  with n(1) num_list_balanced[of 3 7] show ?thesis by simp
qed

lemma num_list_facts:
  assumes "1 \<le> num_files" and "1 \<le> R"
  shows "\<exists>nums. num_list R num_files = Inr nums \<and> length nums = nat num_files
           \<and> (\<forall>n\<in>set nums. 0 \<le> n) \<and> sum_list nums = int R \<and> 1 \<le> hd nums"
proof -
  let ?b = "int R div num_files" and ?r = "int R mod num_files"
  let ?nums = "map (\<lambda>i. if int i < ?r then ?b + 1 else ?b) [0..<nat num_files]"
  have eq: "num_list R num_files = Inr ?nums" by (rule num_list_eq[OF assms(1)])
  have r: "0 \<le> ?r" using assms by simp
  have b: "0 \<le> ?b" using assms by (simp add: pos_imp_zdiv_nonneg_iff)
  have nonneg: "\<forall>n\<in>set ?nums. 0 \<le> n" using b by auto
  have sum: "sum_list ?nums = int R" by (rule sum_list_num_list[OF assms(1)])
  have upt: "[0..<nat num_files] = 0 # [1..<nat num_files]"
    using assms(1) by (simp add: upt_conv_Cons)
  have "1 \<le> (if 0 < ?r then ?b + 1 else ?b)"
  proof (cases "0 < ?r")
    case True
    with b show ?thesis by simp
  next
    case False
    with r have "?r = 0" by simp
    then have "num_files * ?b = int R" by (simp add: mod_eq_0_iff_dvd)
    with assms b have "?b \<noteq> 0" by auto
    with b False show ?thesis by simp
  qed
  then have hd: "1 \<le> hd ?nums" by (simp add: upt)
  show ?thesis using eq nonneg sum hd by (intro exI[of _ ?nums]) simp
qed

lemma sum_list_butlast_le:
  "\<forall>n\<in>set nums. (0::int) \<le> n \<Longrightarrow> sum_list (butlast nums) \<le> sum_list nums"
  by (induction nums) auto

lemma splice_pos_returns:
  assumes "1 \<le> num_files" and "fa \<noteq> []" and "\<forall>r\<in>set fa. line_bases r \<noteq> 0"
    and "num_list (length fa) num_files = Inr nums"
  shows "\<exists>sp. splice_pos fa nums = Inr sp"
proof -
  have R: "1 \<le> length fa" using assms(2) by (cases fa) simp_all
  from num_list_facts[OF assms(1) R] assms(4)
  have nonneg: "\<forall>n\<in>set nums. 0 \<le> n" and sum: "sum_list nums = int (length fa)"
    and hd: "1 \<le> hd nums"
    by auto
  have 1: "\<forall>n\<in>set (butlast nums). 0 \<le> n" using nonneg by (auto dest: in_set_butlastD)
  have 2: "butlast nums \<noteq> [] \<longrightarrow> 0 \<le> - 1 + hd (butlast nums)"
    using hd by (cases nums) (auto split: if_splits)
  have "sum_list (butlast nums) \<le> int (length fa)"
    using sum_list_butlast_le[OF nonneg] sum by simp
  then have 3: "- 1 + sum_list (butlast nums) < int (length fa)" by simp
  show ?thesis
    unfolding splice_pos_def by (rule splice_loop_returns[OF assms(3) 1 2 3])
qed

text \<open>
  C2. For every index with \<open>R \<ge> 1\<close> records and every partition count \<open>P\<close> with
  \<open>1 \<le> P \<le> R\<close>, whenever the planner returns a plan, its \<open>P\<close> block sizes are the
  differences of neighbours in \<open>[0] + splice_pos + [end_pos of the last record]\<close>, they add
  up to the end position of the last record, and every splice position is the end
  position of some record of the index. The planner does return a plan when no record has
  \<open>line_bases = 0\<close> (the one case in which \<open>end_pos\<close> raises).
\<close>

theorem split_plan_blocks:
  "1 \<le> num_files \<and> num_files \<le> int (length fa_idx_data) \<longrightarrow>
     (\<forall>plan. split_plan fa_idx_data num_files = Inr plan \<longrightarrow>
        end_pos (last fa_idx_data) = Inr (sum_list (plan_block_size plan))
        \<and> plan_block_size plan
            = block_size ([0] @ plan_splice_pos plan @ [sum_list (plan_block_size plan)])
        \<and> length (plan_block_size plan) = nat num_files
        \<and> (\<forall>p\<in>set (plan_splice_pos plan). \<exists>r\<in>set fa_idx_data. end_pos r = Inr p))
     \<and> ((\<forall>r\<in>set fa_idx_data. line_bases r \<noteq> 0) \<longrightarrow>
          (\<exists>plan. split_plan fa_idx_data num_files = Inr plan))"
proof (intro impI conjI allI)
  fix plan
  assume a: "1 \<le> num_files \<and> num_files \<le> int (length fa_idx_data)"
    and p: "split_plan fa_idx_data num_files = Inr plan"
  from a have ne: "fa_idx_data \<noteq> []" by auto
  from p obtain nums sp lst e where
    nums: "num_list (length fa_idx_data) num_files = Inr nums"
    and sp: "splice_pos fa_idx_data nums = Inr sp"
    and lst: "py_index fa_idx_data (- 1) = Inr lst"
    and e: "end_pos lst = Inr e"
    and plan: "plan = \<lparr>plan_num_list = nums, plan_splice_pos = sp,
                       plan_block_size = block_size ([0] @ sp @ [e])\<rparr>"
    unfolding split_plan_def and_then_Inr_iff by auto
  have lst': "lst = last fa_idx_data" using lst py_index_last[OF ne] by simp
  have "sum_list (block_size (0 # sp @ [e])) = last (0 # sp @ [e]) - 0"
    by (rule sum_list_block_size)
  then have sum: "sum_list (plan_block_size plan) = e" using plan by simp
  show "end_pos (last fa_idx_data) = Inr (sum_list (plan_block_size plan))"
    using e lst' sum by simp
  show "plan_block_size plan
          = block_size ([0] @ plan_splice_pos plan @ [sum_list (plan_block_size plan)])"
    unfolding sum using plan by simp
  have "length nums = nat num_files"
    using nums num_list_eq[of num_files "length fa_idx_data"] a by auto
  moreover have "length sp = length (butlast nums)"
    using sp splice_loop_length[of fa_idx_data "- 1" "butlast nums" "[]" sp]
    by (simp add: splice_pos_def)
  ultimately show "length (plan_block_size plan) = nat num_files"
    using a plan by (simp add: length_block_size)
  have "\<forall>p\<in>set sp. \<exists>r\<in>set fa_idx_data. end_pos r = Inr p"
    using sp unfolding splice_pos_def by (rule splice_loop_end_pos) simp
  then show "\<forall>p\<in>set (plan_splice_pos plan). \<exists>r\<in>set fa_idx_data. end_pos r = Inr p"
    using plan by simp
next
  assume a: "1 \<le> num_files \<and> num_files \<le> int (length fa_idx_data)"
    and lb: "\<forall>r\<in>set fa_idx_data. line_bases r \<noteq> 0"
  from a have ne: "fa_idx_data \<noteq> []" by auto
  then have R: "1 \<le> length fa_idx_data" by (cases fa_idx_data) simp_all
  from a num_list_facts[OF _ R, of num_files] obtain nums where
    nums: "num_list (length fa_idx_data) num_files = Inr nums" by auto
  from a splice_pos_returns[OF _ ne lb nums] obtain sp where
    sp: "splice_pos fa_idx_data nums = Inr sp" by auto
  have lst: "py_index fa_idx_data (- 1) = Inr (last fa_idx_data)" by (rule py_index_last[OF ne])
  have "line_bases (last fa_idx_data) \<noteq> 0" using lb ne by simp
  then obtain e where e: "end_pos (last fa_idx_data) = Inr e"
    by (simp add: end_pos_def Let_def)
  show "\<exists>plan. split_plan fa_idx_data num_files = Inr plan"
    using nums sp lst e by (simp add: split_plan_def)
qed

theorem split_plan_blocks_witness:
  "split_plan
     [\<lparr>name = ''chr1'', length_f = 120, offset = 6, line_bases = 60, line_width = 61\<rparr>,
      \<lparr>name = ''chr2'', length_f = 70, offset = 134, line_bases = 60, line_width = 61\<rparr>,
      \<lparr>name = ''chr3'', length_f = 60, offset = 212, line_bases = 60, line_width = 61\<rparr>] 2
     = Inr \<lparr>plan_num_list = [2, 1], plan_splice_pos = [206], plan_block_size = [206, 67]\<rparr>
   \<and> end_pos \<lparr>name = ''chr3'', length_f = 60, offset = 212, line_bases = 60, line_width = 61\<rparr>
       = Inr (sum_list [206, 67])
   \<and> end_pos \<lparr>name = ''chr2'', length_f = 70, offset = 134, line_bases = 60, line_width = 61\<rparr>
       = Inr 206"
proof -
  let ?fa = "[\<lparr>name = ''chr1'', length_f = 120, offset = 6, line_bases = 60, line_width = 61\<rparr>,
      \<lparr>name = ''chr2'', length_f = 70, offset = 134, line_bases = 60, line_width = 61\<rparr>,
      \<lparr>name = ''chr3'', length_f = 60, offset = 212, line_bases = 60, line_width = 61\<rparr>]"
  have plan: "split_plan ?fa 2
     = Inr \<lparr>plan_num_list = [2, 1], plan_splice_pos = [206], plan_block_size = [206, 67]\<rparr>"
    by (simp add: split_plan_def num_list_def splice_pos_def py_index_def numeral_2_eq_2
        end_pos_def block_size_def Let_def)
  from split_plan_blocks[of 2 ?fa] plan
  have "end_pos (last ?fa) = Inr (sum_list [206, 67])" by (simp add: block_size_def)
  moreover have "end_pos \<lparr>name = ''chr2'', length_f = 70, offset = 134, line_bases = 60,
                    line_width = 61\<rparr> = Inr 206"
    by (simp add: end_pos_def Let_def)
  ultimately show ?thesis using plan by simp
qed

section \<open>Writing the parts\<close>

lemma sorted_block_size_nonneg: "sorted xs \<Longrightarrow> \<forall>b\<in>set (block_size xs). 0 \<le> b"
proof (induction xs rule: induct_list012)
  case 1
  then show ?case by (simp add: block_size_def)
next
  case (2 x)
  then show ?case by (simp add: block_size_single)
next
  case (3 x y zs)
  then show ?case by (simp add: block_size_Cons2)
qed

lemma end_pos_nth:
  assumes "map end_pos fa = map Inr es" and "i < length fa"
  shows "end_pos (fa ! i) = Inr (es ! i)"
proof -
  have "length es = length fa" using assms(1) by (metis length_map)
  then have "map end_pos fa ! i = map Inr es ! i" using assms by simp
  then show ?thesis using assms(2) \<open>length es = length fa\<close> by simp
qed

lemma splice_loop_sorted:
  assumes ep: "map end_pos fa = map Inr es" and srt: "sorted es"
  shows "\<forall>n\<in>set nums. 0 \<le> n \<Longrightarrow> nums \<noteq> [] \<longrightarrow> 0 \<le> idx + hd nums \<Longrightarrow>
    idx + sum_list nums < int (length fa) \<Longrightarrow>
    sorted acc \<Longrightarrow> set acc \<subseteq> set es \<Longrightarrow>
    \<forall>a\<in>set acc. \<forall>j. idx \<le> int j \<and> j < length fa \<longrightarrow> a \<le> es ! j \<Longrightarrow>
    \<exists>sp. splice_loop fa idx nums acc = Inr sp \<and> sorted sp \<and> set sp \<subseteq> set es"
proof (induction nums arbitrary: idx acc)
  case Nil
  then show ?case by simp
next
  case (Cons n nums)
  have len: "length es = length fa" using ep by (metis length_map)
  have lo: "0 \<le> idx + n" using Cons.prems(2) by simp
  have "0 \<le> sum_list nums" using Cons.prems(1) by (intro sum_list_nonneg) simp
  then have hi: "idx + n < int (length fa)" using Cons.prems(3) by simp
  let ?i = "nat (idx + n)"
  have i: "?i < length fa" using lo hi by simp
  have r: "py_index fa (idx + n) = Inr (fa ! ?i)" using lo hi by (rule py_index_nth)
  have pos: "end_pos (fa ! ?i) = Inr (es ! ?i)" using ep i by (rule end_pos_nth)
  have n0: "0 \<le> n" using Cons.prems(1) by simp
  have "\<exists>sp. splice_loop fa (idx + n) nums (acc @ [es ! ?i]) = Inr sp \<and> sorted sp
          \<and> set sp \<subseteq> set es"
  proof (rule Cons.IH)
    show "\<forall>n\<in>set nums. 0 \<le> n" using Cons.prems(1) by simp
    show "nums \<noteq> [] \<longrightarrow> 0 \<le> idx + n + hd nums"
      using lo Cons.prems(1) by (cases nums) auto
    show "idx + n + sum_list nums < int (length fa)" using Cons.prems(3) by (simp add: add.assoc)
    have "\<forall>a\<in>set acc. a \<le> es ! ?i"
      using Cons.prems(6) i lo n0 by auto
    then show "sorted (acc @ [es ! ?i])" using Cons.prems(4) by (simp add: sorted_append)
    show "set (acc @ [es ! ?i]) \<subseteq> set es" using Cons.prems(5) i len by simp
    show "\<forall>a\<in>set (acc @ [es ! ?i]). \<forall>j. idx + n \<le> int j \<and> j < length fa \<longrightarrow> a \<le> es ! j"
    proof (intro ballI allI impI)
      fix a j
      assume a: "a \<in> set (acc @ [es ! ?i])" and j: "idx + n \<le> int j \<and> j < length fa"
      show "a \<le> es ! j"
      proof (cases "a \<in> set acc")
        case True
        then show ?thesis using Cons.prems(6) j n0 by auto
      next
        case False
        then have "a = es ! ?i" using a by simp
        moreover have "?i \<le> j" using j lo by linarith
        ultimately show ?thesis using srt j len by (simp add: sorted_nth_mono)
      qed
    qed
  qed
  then show ?case using r pos by simp
qed

lemma split_plan_sorted:
  assumes P: "1 \<le> num_files" and ne: "fa \<noteq> []"
    and ep: "map end_pos fa = map Inr es" and srt: "sorted (0 # es)"
  shows "\<exists>plan. split_plan fa num_files = Inr plan
           \<and> length (plan_block_size plan) = nat num_files
           \<and> (\<forall>b\<in>set (plan_block_size plan). 0 \<le> b)
           \<and> sum_list (plan_block_size plan) = last es"
proof -
  have len: "length es = length fa" using ep by (metis length_map)
  then have es_ne: "es \<noteq> []" using ne by auto
  have R: "1 \<le> length fa" using ne by (cases fa) simp_all
  from num_list_facts[OF P R] obtain nums where
    nums: "num_list (length fa) num_files = Inr nums" and ln: "length nums = nat num_files"
    and nonneg: "\<forall>n\<in>set nums. 0 \<le> n" and sum: "sum_list nums = int (length fa)"
    and hd: "1 \<le> hd nums"
    by auto
  have 1: "\<forall>n\<in>set (butlast nums). 0 \<le> n" using nonneg by (auto dest: in_set_butlastD)
  have 2: "butlast nums \<noteq> [] \<longrightarrow> 0 \<le> - 1 + hd (butlast nums)"
    using hd by (cases nums) (auto split: if_splits)
  have "sum_list (butlast nums) \<le> int (length fa)"
    using sum_list_butlast_le[OF nonneg] sum by simp
  then have 3: "- 1 + sum_list (butlast nums) < int (length fa)" by simp
  have srt_es: "sorted es" using srt by simp
  from splice_loop_sorted[OF ep srt_es 1 2 3, of "[]"] obtain sp where
    sp: "splice_pos fa nums = Inr sp" and ssp: "sorted sp" and sub: "set sp \<subseteq> set es"
    by (auto simp: splice_pos_def)
  have lst: "py_index fa (- 1) = Inr (last fa)" by (rule py_index_last[OF ne])
  have "end_pos (fa ! (length fa - 1)) = Inr (es ! (length fa - 1))"
    using ep R by (intro end_pos_nth) simp_all
  then have e: "end_pos (last fa) = Inr (last es)"
    using ne es_ne len by (simp add: last_conv_nth)
  let ?plan = "\<lparr>plan_num_list = nums, plan_splice_pos = sp,
                 plan_block_size = block_size ([0] @ sp @ [last es])\<rparr>"
  have plan: "split_plan fa num_files = Inr ?plan"
    using nums sp lst e by (simp add: split_plan_def)
  have "\<forall>a\<in>set sp. a \<le> last es"
  proof
    fix a
    assume "a \<in> set sp"
    with sub have "a \<in> set es" by auto
    then obtain k where k: "k < length es" "a = es ! k" by (auto simp: in_set_conv_nth)
    then have "es ! k \<le> es ! (length es - 1)"
      using srt_es by (intro sorted_nth_mono) simp_all
    then show "a \<le> last es" using k es_ne by (simp add: last_conv_nth)
  qed
  moreover have "\<forall>a\<in>set sp. 0 \<le> a" using sub srt by auto
  ultimately have "sorted ([0] @ sp @ [last es])"
    using ssp srt es_ne by (auto simp: sorted_append)
  then have nn: "\<forall>b\<in>set (block_size ([0] @ sp @ [last es])). 0 \<le> b"
    by (rule sorted_block_size_nonneg)
  have "length sp = length (butlast nums)"
    using sp splice_loop_length[of fa "- 1" "butlast nums" "[]" sp] by (simp add: splice_pos_def)
  then have l: "length (block_size ([0] @ sp @ [last es])) = nat num_files"
    using ln P by (simp add: length_block_size)
  have s: "sum_list (block_size ([0] @ sp @ [last es])) = last es"
    using sum_list_block_size[of 0 "sp @ [last es]"] by simp
  show ?thesis using plan nn l s by (intro exI[of _ ?plan]) simp
qed

lemma universal_newlines_id: "CR \<notin> set s \<Longrightarrow> universal_newlines s = s"
  by (induction s rule: universal_newlines.induct) auto

lemma write_blocks_other:
  "p \<notin> fst ` set ps \<Longrightarrow> write_blocks files_now left ps p = files_now p"
  by (induction files_now left ps rule: write_blocks.induct) auto

lemma write_blocks_written:
  "p \<in> fst ` set ps \<Longrightarrow> write_blocks files_now left ps p \<noteq> None"
proof (induction files_now left ps rule: write_blocks.induct)
  case (1 files_now left)
  then show ?case by simp
next
  case (2 files_now left f bsize rest)
  show ?case
  proof (cases "p \<in> fst ` set rest")
    case True
    show ?thesis
    proof (cases "bsize < 0")
      case neg: True
      have "write_blocks (files_now(f \<mapsto> left)) [] rest p \<noteq> None"
        using neg True by (rule "2.IH"(1))
      then show ?thesis using neg by simp
    next
      case nn: False
      have "write_blocks (files_now(f \<mapsto> take (nat bsize) left)) (drop (nat bsize) left) rest p
              \<noteq> None"
        using nn True by (rule "2.IH"(2))
      then show ?thesis using nn by simp
    qed
  next
    case False
    with "2.prems" have "p = f" by auto
    with False show ?thesis by (simp add: write_blocks_other)
  qed
qed

lemma write_blocks_concat:
  "distinct (map fst ps) \<Longrightarrow> \<forall>b\<in>set (map snd ps). 0 \<le> b \<Longrightarrow>
   concat (map (\<lambda>p. the (write_blocks files_now left ps p)) (map fst ps))
     = take (nat (sum_list (map snd ps))) left"
proof (induction files_now left ps rule: write_blocks.induct)
  case (1 files_now left)
  then show ?case by simp
next
  case (2 files_now left f bsize rest)
  let ?fs = "files_now(f \<mapsto> take (nat bsize) left)"
  have b: "0 \<le> bsize" and bs: "\<forall>b\<in>set (map snd rest). 0 \<le> b"
    using "2.prems"(2) by simp_all
  have d: "distinct (map fst rest)" and nf: "f \<notin> fst ` set rest"
    using "2.prems"(1) by simp_all
  have s: "0 \<le> sum_list (map snd rest)" using bs by (intro sum_list_nonneg) auto
  have first: "the (write_blocks ?fs (drop (nat bsize) left) rest f) = take (nat bsize) left"
    using nf by (simp add: write_blocks_other)
  have "concat (map (\<lambda>p. the (write_blocks ?fs (drop (nat bsize) left) rest p)) (map fst rest))
          = take (nat (sum_list (map snd rest))) (drop (nat bsize) left)"
    using b d bs by (intro "2.IH"(2)) simp_all
  then have "concat (map (\<lambda>p. the (write_blocks files_now left ((f, bsize) # rest) p))
                 (map fst ((f, bsize) # rest)))
        = take (nat bsize) left @ take (nat (sum_list (map snd rest))) (drop (nat bsize) left)"
    using b first by (simp add: comp_def)
  also have "\<dots> = take (nat bsize + nat (sum_list (map snd rest))) left"
    by (simp add: take_add)
  also have "nat bsize + nat (sum_list (map snd rest)) = nat (sum_list (map snd ((f, bsize) # rest)))"
    using b s by (simp add: nat_add_distrib)
  finally show ?case .
qed

text \<open>The decimal digits of a number give the number back, so \<open>str_int\<close> is injective.\<close>

lemma digits_val_snoc: "digits_val (ds @ [c]) = 10 * digits_val ds + digit_val c"
  by (simp add: digits_val_def)

lemma digit_val_digit: "d < 10 \<Longrightarrow> digit_val (''0123456789'' ! d) = d"
proof -
  assume "d < 10"
  then have "d = 0 \<or> d = 1 \<or> d = 2 \<or> d = 3 \<or> d = 4 \<or> d = 5 \<or> d = 6 \<or> d = 7
    \<or> d = 8 \<or> d = 9"
    by arith
  then show ?thesis by (elim disjE) (simp_all add: digit_val_def)
qed

lemma digits_val_str_nat: "digits_val (str_nat n) = n"
proof (induction n rule: str_nat.induct)
  case (1 n)
  show ?case
  proof (cases "n < 10")
    case True
    then have "str_nat n = [''0123456789'' ! n]" by (subst str_nat.simps) simp
    then show ?thesis using True digit_val_digit[of n] by (simp add: digits_val_def)
  next
    case False
    then have "str_nat n = str_nat (n div 10) @ [''0123456789'' ! (n mod 10)]"
      by (subst str_nat.simps) simp
    then show ?thesis
      using False "1.IH" digit_val_digit[of "n mod 10"] by (simp add: digits_val_snoc)
  qed
qed

lemma str_int_inj: "0 \<le> i \<Longrightarrow> 0 \<le> j \<Longrightarrow> str_int i = str_int j \<Longrightarrow> i = j"
proof -
  assume a: "0 \<le> i" "0 \<le> j" "str_int i = str_int j"
  then have "str_nat (nat i) = str_nat (nat j)" by (simp add: str_int_def)
  then have "digits_val (str_nat (nat i)) = digits_val (str_nat (nat j))" by simp
  then have "nat i = nat j" by (simp only: digits_val_str_nat)
  with a show ?thesis by simp
qed

lemma path_join_inj:
  assumes "b \<noteq> [] \<and> hd b \<noteq> CHR ''/''" and "c \<noteq> [] \<and> hd c \<noteq> CHR ''/''"
    and "path_join a b = path_join a c"
  shows "b = c"
  using assms by (auto simp: path_join_def split: if_splits)

lemma basename_no_slash: "CHR ''/'' \<notin> set (basename p)"
proof -
  have "\<forall>c\<in>set (takeWhile (\<lambda>c. c \<noteq> CHR ''/'') (rev p)). c \<noteq> CHR ''/''"
    by (auto dest: set_takeWhileD)
  then show ?thesis by (auto simp: basename_def)
qed

lemma part_name_head:
  assumes "CHR ''/'' \<notin> set filename"
  shows "filename @ ''.part_'' @ s \<noteq> [] \<and> hd (filename @ ''.part_'' @ s) \<noteq> CHR ''/''"
  using assms by (cases filename) auto

lemma distinct_part_files:
  assumes "CHR ''/'' \<notin> set filename"
  shows "distinct (part_files work_dir filename num_files)"
proof -
  have "inj_on (\<lambda>i. path_join work_dir (filename @ ''.part_'' @ str_int i)) (set [1..num_files])"
  proof (rule inj_onI)
    fix i j
    assume i: "i \<in> set [1..num_files]" and j: "j \<in> set [1..num_files]"
      and eq: "path_join work_dir (filename @ ''.part_'' @ str_int i)
                = path_join work_dir (filename @ ''.part_'' @ str_int j)"
    have "filename @ ''.part_'' @ str_int i = filename @ ''.part_'' @ str_int j"
      using part_name_head[OF assms] part_name_head[OF assms] eq by (rule path_join_inj)
    then have "str_int i = str_int j" by simp
    moreover have "0 \<le> i" "0 \<le> j" using i j by simp_all
    ultimately show "i = j" by (intro str_int_inj)
  qed
  then show ?thesis by (simp add: part_files_def distinct_map)
qed

lemma length_part_files: "length (part_files work_dir filename num_files) = nat num_files"
  by (simp add: part_files_def)

lemma end_pos_last:
  assumes "map end_pos fa = map Inr es" and "fa \<noteq> []"
  shows "end_pos (last fa) = Inr (last es)"
proof -
  have "length es = length fa" using assms(1) by (metis length_map)
  then have "es \<noteq> []" using assms(2) by auto
  have "last (map end_pos fa) = last (map Inr es)" using assms(1) by simp
  then show ?thesis using assms(2) \<open>es \<noteq> []\<close> by (simp add: last_map)
qed

lemma find_index_fields:
  assumes "find_index ev files_now self samtools = Inr (files1, self1)"
  shows "original_file self1 = original_file self \<and> original_filename self1 = original_filename self"
  using assms
  by (auto simp: find_index_def has_index_def create_index_def and_then_Inr_iff
      split: if_splits option.splits prod.splits)

lemma split_writes:
  assumes "find_index ev files_now self samtools = Inr (files1, self1)"
    and "read_index (int_max_str_digits ev) files1 (index_file self1) = Inr fa_idx_data"
    and "split_plan fa_idx_data num_files = Inr plan"
    and "files1 (original_file self) = Some content"
  shows "split ev files_now self num_files work_dir samtools
           = (write_blocks files1 (universal_newlines content)
                (zip (part_files work_dir (original_filename self) num_files)
                     (plan_block_size plan)),
              Inr (self1\<lparr>files := Some (part_files work_dir (original_filename self) num_files)\<rparr>))"
  using assms find_index_fields[OF assms(1)] by (simp add: split_def)

text \<open>
  C1, as the code has it. Take an object with the file name that \<^verbatim>\<open>__init__\<close> derives,
  an index that is found or generated and parses to \<open>R\<close> records whose end positions are
  defined, not negative and not decreasing in index order (records in file order), a
  partition count \<open>P\<close> with \<open>1 \<le> P \<le> R\<close>, and a source file of ASCII characters without
  carriage return. Then \<^verbatim>\<open>split\<close> returns normally, creates \<open>P\<close> part files, and these
  concatenated in order are the first \<open>end_pos(last record)\<close> characters of the source file
  (all of it when it is shorter).
\<close>

theorem split_concat:
  assumes "original_filename self = basename (original_file self)"
    and "find_index ev files_now self samtools = Inr (files1, self1)"
    and "read_index (int_max_str_digits ev) files1 (index_file self1) = Inr fa_idx_data"
    and "map end_pos fa_idx_data = map Inr es" and "sorted (0 # es)"
    and "1 \<le> num_files" and "num_files \<le> int (length fa_idx_data)"
    and "files1 (original_file self) = Some content"
    and "\<forall>c\<in>set content. is_ascii c \<and> c \<noteq> CR"
  shows "\<exists>files2 self2.
           split ev files_now self num_files work_dir samtools = (files2, Inr self2)
           \<and> files self2 = Some (part_files work_dir (original_filename self) num_files)
           \<and> length (part_files work_dir (original_filename self) num_files) = nat num_files
           \<and> (\<forall>p\<in>set (part_files work_dir (original_filename self) num_files). files2 p \<noteq> None)
           \<and> end_pos (last fa_idx_data) = Inr (last es)
           \<and> concat (map (\<lambda>p. the (files2 p))
                        (part_files work_dir (original_filename self) num_files))
               = take (nat (last es)) content"
proof -
  let ?parts = "part_files work_dir (original_filename self) num_files"
  have ne: "fa_idx_data \<noteq> []" using assms(6,7) by auto
  from split_plan_sorted[OF assms(6) ne assms(4,5)] obtain plan where
    plan: "split_plan fa_idx_data num_files = Inr plan"
    and len: "length (plan_block_size plan) = nat num_files"
    and nn: "\<forall>b\<in>set (plan_block_size plan). 0 \<le> b"
    and sum: "sum_list (plan_block_size plan) = last es"
    by auto
  let ?ps = "zip ?parts (plan_block_size plan)"
  let ?files2 = "write_blocks files1 (universal_newlines content) ?ps"
  let ?self2 = "self1\<lparr>files := Some ?parts\<rparr>"
  have sp: "split ev files_now self num_files work_dir samtools = (?files2, Inr ?self2)"
    using assms(2,3) plan assms(8) by (rule split_writes)
  have lp: "length ?parts = nat num_files" by (rule length_part_files)
  have fst_ps: "map fst ?ps = ?parts" and snd_ps: "map snd ?ps = plan_block_size plan"
    using lp len by simp_all
  have "CHR ''/'' \<notin> set (original_filename self)"
    unfolding assms(1) by (rule basename_no_slash)
  then have dist: "distinct (map fst ?ps)"
    unfolding fst_ps by (rule distinct_part_files)
  have nn': "\<forall>b\<in>set (map snd ?ps). 0 \<le> b" unfolding snd_ps by (rule nn)
  have "CR \<notin> set content" using assms(9) by auto
  then have un: "universal_newlines content = content" by (rule universal_newlines_id)
  have "concat (map (\<lambda>p. the (?files2 p)) (map fst ?ps))
          = take (nat (sum_list (map snd ?ps))) (universal_newlines content)"
    using dist nn' by (rule write_blocks_concat)
  then have cc: "concat (map (\<lambda>p. the (?files2 p)) ?parts) = take (nat (last es)) content"
    unfolding fst_ps snd_ps sum un .
  have wr: "\<forall>p\<in>set ?parts. ?files2 p \<noteq> None"
  proof
    fix p assume "p \<in> set ?parts"
    then have "p \<in> fst ` set ?ps" using fst_ps by (metis set_map)
    then show "?files2 p \<noteq> None" by (rule write_blocks_written)
  qed
  have e: "end_pos (last fa_idx_data) = Inr (last es)"
    using assms(4) ne by (rule end_pos_last)
  show ?thesis
    using sp lp wr e cc by (intro exI[of _ ?files2] exI[of _ ?self2]) simp
qed

theorem split_concat_witness:
  "concat (map (\<lambda>p. the (fst (split no_programs [''x.fa'' \<mapsto> lf_fasta, ''x.fa.fai'' \<mapsto> lf_fai]
                                  x_fa 2 ''tmp'' ''samtools'') p))
             (part_files ''tmp'' ''x.fa'' 2))
     = take 32 lf_fasta
   \<and> end_pos (last lf_index) = Inr 32"
proof -
  let ?fs = "[''x.fa'' \<mapsto> lf_fasta, ''x.fa.fai'' \<mapsto> lf_fai]"
  have 1: "original_filename x_fa = basename (original_file x_fa)"
    by code_simp
  have 2: "find_index no_programs ?fs x_fa ''samtools''
             = Inr (?fs, x_fa\<lparr>index_file := Some ''x.fa.fai''\<rparr>)"
    by (simp add: find_index_def has_index_def)
  have 3: "read_index (int_max_str_digits no_programs) ?fs
             (index_file (x_fa\<lparr>index_file := Some ''x.fa.fai''\<rparr>)) = Inr lf_index"
    by code_simp
  have 4: "map end_pos lf_index = map Inr [14, 21, 32]"
    by (simp add: end_pos_def Let_def)
  have 5: "sorted (0 # [14, 21, 32 :: int])" by simp
  have 6: "(1::int) \<le> 2" "2 \<le> int (length lf_index)" by simp_all
  have 7: "?fs (original_file x_fa) = Some lf_fasta" by simp
  have 8: "\<forall>c\<in>set lf_fasta. is_ascii c \<and> c \<noteq> CR" by (simp add: is_ascii_def)
  from split_concat[OF 1 2 3 4 5 6 7 8, of "''tmp''"] show ?thesis
    by auto
qed

text \<open>
  C1 as stated, for every source file, fails on a file with CR LF line ends: text mode
  turns each CR LF into a line feed before \<^verbatim>\<open>read(bsize)\<close> counts characters. For the
  two records below (end position of the last one: 19) the two part files hold 16
  characters in all, none of them a CR, and the first part ends with the first character
  of the second record's header line.
\<close>

theorem split_concat_counterexample:
  "(case split no_programs [''x.fa'' \<mapsto> crlf_fasta, ''x.fa.fai'' \<mapsto> crlf_fai] x_fa 2
           ''tmp'' ''samtools'' of
      (files2, r) \<Rightarrow>
        map_sum id files r = Inr (Some [''tmp/x.fa.part_1'', ''tmp/x.fa.part_2''])
        \<and> files2 ''tmp/x.fa.part_1'' = Some (''>a'' @ [LF] @ ''ACGT'' @ [LF] @ ''>'')
        \<and> files2 ''tmp/x.fa.part_2'' = Some (''b'' @ [LF] @ ''ACGT'' @ [LF])
        \<and> concat (map (\<lambda>p. the (files2 p)) [''tmp/x.fa.part_1'', ''tmp/x.fa.part_2''])
            \<noteq> take 19 crlf_fasta)
   \<and> read_index 4300 [''x.fa'' \<mapsto> crlf_fasta, ''x.fa.fai'' \<mapsto> crlf_fai] (Some ''x.fa.fai'')
       = Inr [\<lparr>name = ''a'', length_f = 4, offset = 4, line_bases = 4, line_width = 6\<rparr>,
              \<lparr>name = ''b'', length_f = 4, offset = 14, line_bases = 4, line_width = 6\<rparr>]
   \<and> end_pos \<lparr>name = ''b'', length_f = 4, offset = 14, line_bases = 4, line_width = 6\<rparr> = Inr 19"
  by code_simp

section \<open>More parts than records\<close>

lemma splice_loop_append:
  "splice_loop fa idx (xs @ ys) acc
     = and_then (splice_loop fa idx xs acc) (\<lambda>sp. splice_loop fa (idx + sum_list xs) ys sp)"
proof (induction xs arbitrary: idx acc)
  case Nil
  then show ?case by simp
next
  case (Cons n xs)
  show ?case
  proof (cases "py_index fa (idx + n)")
    case (Inl e)
    then show ?thesis by simp
  next
    case (Inr r)
    then show ?thesis
      by (cases "end_pos r") (simp_all add: Cons.IH add.assoc)
  qed
qed

lemma splice_loop_zeros:
  assumes "0 \<le> idx" and "idx < int (length fa)" and "end_pos (fa ! nat idx) = Inr e"
  shows "splice_loop fa idx (replicate k 0) acc = Inr (acc @ replicate k e)"
proof (induction k arbitrary: acc)
  case 0
  then show ?case by simp
next
  case (Suc k)
  have "py_index fa idx = Inr (fa ! nat idx)" using assms(1,2) by (rule py_index_nth)
  then show ?case using assms(3) Suc.IH[of "acc @ [e]"] by (simp add: replicate_app_Cons_same)
qed

lemma splice_loop_last:
  "splice_loop fa idx nums acc = Inr sp \<Longrightarrow> nums \<noteq> [] \<Longrightarrow>
   and_then (py_index fa (idx + sum_list nums)) end_pos = Inr (last sp)"
proof (induction nums arbitrary: idx acc)
  case Nil
  then show ?case by simp
next
  case (Cons n nums)
  from Cons.prems(1) obtain r pos where
    r: "py_index fa (idx + n) = Inr r" and pos: "end_pos r = Inr pos"
    and loop: "splice_loop fa (idx + n) nums (acc @ [pos]) = Inr sp"
    by (auto simp: and_then_Inr_iff)
  show ?case
  proof (cases "nums = []")
    case True
    with loop r pos show ?thesis by auto
  next
    case False
    from Cons.IH[OF loop False] show ?thesis by (simp add: add.assoc)
  qed
qed

lemma block_size_nth:
  "Suc i < length xs \<Longrightarrow> block_size xs ! i = xs ! Suc i - xs ! i"
  by (simp add: block_size_def nth_tl nth_butlast)

lemma num_list_more_parts:
  assumes "int R < num_files"
  shows "num_list R num_files = Inr (replicate R 1 @ replicate (nat num_files - R) 0)"
proof -
  have P: "1 \<le> num_files" using assms by simp
  have b: "int R div num_files = 0" and r: "int R mod num_files = int R"
    using assms by simp_all
  have "map (\<lambda>i. if int i < int R mod num_files then int R div num_files + 1
                  else int R div num_files) [0..<nat num_files]
          = replicate R 1 @ replicate (nat num_files - R) 0"
    unfolding b r using assms by (intro nth_equalityI) (auto simp: nth_append)
  then show ?thesis using num_list_eq[OF P, of R] by simp
qed

text \<open>More parts than records: the plan.\<close>

lemma split_plan_more_parts:
  assumes R: "fa \<noteq> []" and P: "int (length fa) < num_files"
    and lb: "\<forall>r\<in>set fa. line_bases r \<noteq> 0"
  shows "\<exists>plan. split_plan fa num_files = Inr plan
           \<and> plan_num_list plan = replicate (length fa) 1 @ replicate (nat num_files - length fa) 0
           \<and> length (plan_block_size plan) = nat num_files
           \<and> (\<forall>i. length fa \<le> i \<and> i < nat num_files \<longrightarrow> plan_block_size plan ! i = 0)"
proof -
  let ?R = "length fa"
  let ?nums = "replicate ?R 1 @ replicate (nat num_files - ?R) (0::int)"
  have R1: "1 \<le> ?R" using R by (cases fa) simp_all
  have nums: "num_list ?R num_files = Inr ?nums" using P by (rule num_list_more_parts)
  have "0 < nat num_files - ?R" using P by linarith
  then obtain k where k: "nat num_files - ?R = Suc k" by (cases "nat num_files - ?R") auto
  have snoc: "replicate (Suc k) (0::int) = replicate k 0 @ [0]"
    by (simp add: replicate_append_same)
  have "butlast (replicate ?R 1 @ replicate (Suc k) (0::int)) = replicate ?R 1 @ replicate k 0"
    unfolding snoc by (simp only: butlast_snoc flip: append_assoc)
  then have bl: "butlast ?nums = replicate ?R 1 @ replicate k 0"
    by (simp only: k)
  have 1: "\<forall>n\<in>set (replicate ?R (1::int)). 0 \<le> n" by simp
  have 2: "replicate ?R (1::int) \<noteq> [] \<longrightarrow> 0 \<le> - 1 + hd (replicate ?R (1::int))"
    using R1 by (cases ?R) simp_all
  have 3: "- 1 + sum_list (replicate ?R (1::int)) < int ?R" by (simp add: sum_list_replicate)
  from splice_loop_returns[OF lb 1 2 3, of "[]"] obtain sp1 where
    sp1: "splice_loop fa (- 1) (replicate ?R 1) [] = Inr sp1" by auto
  have len1: "length sp1 = ?R" using splice_loop_length[OF sp1] by simp
  have lst: "py_index fa (- 1) = Inr (last fa)" by (rule py_index_last[OF R])
  have "line_bases (last fa) \<noteq> 0" using lb R by simp
  then obtain e where e: "end_pos (last fa) = Inr e" by (simp add: end_pos_def Let_def)
  have idx: "- 1 + sum_list (replicate ?R (1::int)) = int ?R - 1"
    by (simp add: sum_list_replicate)
  have at: "fa ! nat (int ?R - 1) = last fa"
    using R R1 by (simp add: last_conv_nth nat_diff_distrib')
  have pi: "py_index fa (int ?R - 1) = Inr (last fa)"
    using py_index_nth[of "int ?R - 1" fa] R R1 at by simp
  have "replicate ?R (1::int) \<noteq> []" using R1 by auto
  from splice_loop_last[OF sp1 this] have last1: "last sp1 = e"
    unfolding idx using pi e by simp
  have zeros: "splice_loop fa (int ?R - 1) (replicate k 0) sp1 = Inr (sp1 @ replicate k e)"
    using R R1 at e by (intro splice_loop_zeros) simp_all
  have sp: "splice_pos fa ?nums = Inr (sp1 @ replicate k e)"
    unfolding splice_pos_def bl splice_loop_append sp1 idx using zeros by simp
  let ?ext = "[0] @ (sp1 @ replicate k e) @ [e]"
  let ?plan = "\<lparr>plan_num_list = ?nums, plan_splice_pos = sp1 @ replicate k e,
                 plan_block_size = block_size ?ext\<rparr>"
  have plan: "split_plan fa num_files = Inr ?plan"
    using nums sp lst e by (simp add: split_plan_def)
  have lext: "length ?ext = Suc (nat num_files)" using len1 k by simp
  have ext: "?ext = (0 # sp1) @ replicate (Suc k) e"
    by (simp add: replicate_append_same)
  have tail: "\<And>j. ?R \<le> j \<Longrightarrow> j \<le> nat num_files \<Longrightarrow> ?ext ! j = e"
  proof -
    fix j assume j: "?R \<le> j" "j \<le> nat num_files"
    have sp1_ne: "sp1 \<noteq> []" using len1 R by auto
    show "?ext ! j = e"
    proof (cases "j = ?R")
      case True
      have "((0 # sp1) @ replicate (Suc k) e) ! ?R = (0 # sp1) ! ?R"
        using len1 by (subst nth_append) simp
      also have "\<dots> = sp1 ! (?R - 1)" using R by (cases ?R) simp_all
      also have "\<dots> = last sp1" using sp1_ne len1 by (simp add: last_conv_nth)
      finally show ?thesis unfolding ext using last1 True by simp
    next
      case False
      with j have lt: "?R < j" by simp
      then have "((0 # sp1) @ replicate (Suc k) e) ! j = replicate (Suc k) e ! (j - Suc ?R)"
        using len1 by (subst nth_append) simp
      also have "\<dots> = e"
        using j lt k by (intro nth_replicate) linarith
      finally show ?thesis unfolding ext .
    qed
  qed
  have zero: "\<forall>i. ?R \<le> i \<and> i < nat num_files \<longrightarrow> block_size ?ext ! i = 0"
  proof (intro allI impI)
    fix i assume i: "?R \<le> i \<and> i < nat num_files"
    then have "block_size ?ext ! i = ?ext ! Suc i - ?ext ! i"
      using lext by (intro block_size_nth) simp
    also have "\<dots> = 0" using tail[of i] tail[of "Suc i"] i by simp
    finally show "block_size ?ext ! i = 0" .
  qed
  have lb': "length (block_size ?ext) = nat num_files"
    using lext by (simp add: length_block_size)
  show ?thesis using plan zero lb' by (intro exI[of _ ?plan]) simp
qed

lemma split_plan_no_records:
  assumes "1 \<le> num_files"
  shows "split_plan [] num_files = Inl IndexError"
proof -
  have nums: "num_list 0 num_files = Inr (replicate (nat num_files) 0)"
    using num_list_more_parts[of 0 num_files] assms by simp
  have pi: "py_index ([]::FastaIndex list) (- 1) = Inl IndexError"
    by (simp add: py_index_def)
  show ?thesis
  proof (cases "splice_pos [] (replicate (nat num_files) 0)")
    case (Inl e)
    have "butlast (replicate (nat num_files) (0::int)) \<noteq> []"
      using Inl by (auto simp: splice_pos_def)
    then obtain n ns where "butlast (replicate (nat num_files) (0::int)) = n # ns"
      by (cases "butlast (replicate (nat num_files) (0::int))") auto
    moreover from this have "n = 0" by (metis in_set_butlastD in_set_replicate list.set_intros(1))
    ultimately have "splice_pos [] (replicate (nat num_files) 0) = Inl IndexError"
      using pi by (simp add: splice_pos_def)
    then show ?thesis using nums by (simp add: split_plan_def)
  next
    case (Inr sp)
    then show ?thesis using nums pi by (simp add: split_plan_def)
  qed
qed

lemma write_blocks_empty_part:
  "distinct (map fst ps) \<Longrightarrow> i < length ps \<Longrightarrow> snd (ps ! i) = 0 \<Longrightarrow>
   write_blocks files_now left ps (fst (ps ! i)) = Some []"
proof (induction files_now left ps arbitrary: i rule: write_blocks.induct)
  case (1 files_now left)
  then show ?case by simp
next
  case (2 files_now left f bsize rest)
  show ?case
  proof (cases i)
    case 0
    with "2.prems" have "bsize = 0" and "f \<notin> fst ` set rest" by simp_all
    with 0 show ?thesis by (simp add: write_blocks_other)
  next
    case (Suc j)
    with "2.prems" have d: "distinct (map fst rest)" and j: "j < length rest"
      and z: "snd (rest ! j) = 0" by simp_all
    show ?thesis
    proof (cases "bsize < 0")
      case True
      have "write_blocks (files_now(f \<mapsto> left)) [] rest (fst (rest ! j)) = Some []"
        using True d j z by (rule "2.IH"(1))
      then show ?thesis using True Suc by simp
    next
      case False
      have "write_blocks (files_now(f \<mapsto> take (nat bsize) left)) (drop (nat bsize) left) rest
              (fst (rest ! j)) = Some []"
        using False d j z by (rule "2.IH"(2))
      then show ?thesis using False Suc by simp
    qed
  qed
qed

text \<open>
  C6, as the code has it. The source has no check of the partition count against the
  number of records. For an index of \<open>R \<ge> 1\<close> records, none with \<open>line_bases = 0\<close>, and
  \<open>P > R\<close>, the planner raises nothing: it gives one record to each of the first \<open>R\<close>
  partitions and none to the other \<open>P - R\<close>, whose block sizes are 0, and \<^verbatim>\<open>split\<close> goes
  on to create all \<open>P\<close> part files, the last \<open>P - R\<close> of them empty. Only an index with no
  record at all stops the planner, with the IndexError of \<^verbatim>\<open>fa_idx_data[-1]\<close>, before a
  part file is written.
\<close>

theorem split_more_parts:
  assumes "original_filename self = basename (original_file self)"
    and "find_index ev files_now self samtools = Inr (files1, self1)"
    and "read_index (int_max_str_digits ev) files1 (index_file self1) = Inr fa_idx_data"
    and "int (length fa_idx_data) < num_files"
    and "files1 (original_file self) = Some content"
  shows "(fa_idx_data = [] \<longrightarrow>
            split ev files_now self num_files work_dir samtools = (files1, Inl IndexError))
       \<and> (fa_idx_data \<noteq> [] \<and> (\<forall>r\<in>set fa_idx_data. line_bases r \<noteq> 0) \<longrightarrow>
            (\<exists>plan files2 self2.
               split_plan fa_idx_data num_files = Inr plan
               \<and> plan_num_list plan
                   = replicate (length fa_idx_data) 1
                     @ replicate (nat num_files - length fa_idx_data) 0
               \<and> length (plan_block_size plan) = nat num_files
               \<and> (\<forall>i. length fa_idx_data \<le> i \<and> i < nat num_files \<longrightarrow>
                      plan_block_size plan ! i = 0)
               \<and> split ev files_now self num_files work_dir samtools = (files2, Inr self2)
               \<and> files self2 = Some (part_files work_dir (original_filename self) num_files)
               \<and> length (part_files work_dir (original_filename self) num_files) = nat num_files
               \<and> (\<forall>i. i < nat num_files \<longrightarrow>
                      files2 (part_files work_dir (original_filename self) num_files ! i) \<noteq> None)
               \<and> (\<forall>i. length fa_idx_data \<le> i \<and> i < nat num_files \<longrightarrow>
                      files2 (part_files work_dir (original_filename self) num_files ! i)
                        = Some [])))"
proof (intro conjI impI)
  assume "fa_idx_data = []"
  then have "split_plan fa_idx_data num_files = Inl IndexError"
    using assms(4) by (simp add: split_plan_no_records)
  then show "split ev files_now self num_files work_dir samtools = (files1, Inl IndexError)"
    using assms(2,3) by (simp add: split_def)
next
  assume a: "fa_idx_data \<noteq> [] \<and> (\<forall>r\<in>set fa_idx_data. line_bases r \<noteq> 0)"
  let ?R = "length fa_idx_data"
  let ?parts = "part_files work_dir (original_filename self) num_files"
  from a have ne: "fa_idx_data \<noteq> []" and lb: "\<forall>r\<in>set fa_idx_data. line_bases r \<noteq> 0"
    by simp_all
  from split_plan_more_parts[OF ne assms(4) lb] obtain plan where
    plan: "split_plan fa_idx_data num_files = Inr plan"
    and nums: "plan_num_list plan = replicate ?R 1 @ replicate (nat num_files - ?R) 0"
    and len: "length (plan_block_size plan) = nat num_files"
    and zero: "\<forall>i. ?R \<le> i \<and> i < nat num_files \<longrightarrow> plan_block_size plan ! i = 0"
    by auto
  let ?ps = "zip ?parts (plan_block_size plan)"
  let ?files2 = "write_blocks files1 (universal_newlines content) ?ps"
  let ?self2 = "self1\<lparr>files := Some ?parts\<rparr>"
  have sp: "split ev files_now self num_files work_dir samtools = (?files2, Inr ?self2)"
    using assms(2,3) plan assms(5) by (rule split_writes)
  have lp: "length ?parts = nat num_files" by (rule length_part_files)
  have fst_ps: "map fst ?ps = ?parts" using lp len by simp
  have lps: "length ?ps = nat num_files" using lp len by simp
  have "CHR ''/'' \<notin> set (original_filename self)"
    unfolding assms(1) by (rule basename_no_slash)
  then have dist: "distinct (map fst ?ps)"
    unfolding fst_ps by (rule distinct_part_files)
  have wr: "\<forall>i. i < nat num_files \<longrightarrow> ?files2 (?parts ! i) \<noteq> None"
  proof (intro allI impI)
    fix i assume "i < nat num_files"
    then have "?parts ! i \<in> set ?parts" using lp by simp
    then have "?parts ! i \<in> fst ` set ?ps" using fst_ps by (metis set_map)
    then show "?files2 (?parts ! i) \<noteq> None" by (rule write_blocks_written)
  qed
  have em: "\<forall>i. ?R \<le> i \<and> i < nat num_files \<longrightarrow> ?files2 (?parts ! i) = Some []"
  proof (intro allI impI)
    fix i assume i: "?R \<le> i \<and> i < nat num_files"
    then have il: "i < length ?ps" using lps by simp
    have "snd (?ps ! i) = 0" using i zero lp len by simp
    with dist il have "?files2 (fst (?ps ! i)) = Some []" by (rule write_blocks_empty_part)
    then show "?files2 (?parts ! i) = Some []" using i lp len by simp
  qed
  show "\<exists>plan files2 self2.
               split_plan fa_idx_data num_files = Inr plan
               \<and> plan_num_list plan
                   = replicate (length fa_idx_data) 1
                     @ replicate (nat num_files - length fa_idx_data) 0
               \<and> length (plan_block_size plan) = nat num_files
               \<and> (\<forall>i. length fa_idx_data \<le> i \<and> i < nat num_files \<longrightarrow>
                      plan_block_size plan ! i = 0)
               \<and> split ev files_now self num_files work_dir samtools = (files2, Inr self2)
               \<and> files self2 = Some (part_files work_dir (original_filename self) num_files)
               \<and> length (part_files work_dir (original_filename self) num_files) = nat num_files
               \<and> (\<forall>i. i < nat num_files \<longrightarrow>
                      files2 (part_files work_dir (original_filename self) num_files ! i) \<noteq> None)
               \<and> (\<forall>i. length fa_idx_data \<le> i \<and> i < nat num_files \<longrightarrow>
                      files2 (part_files work_dir (original_filename self) num_files ! i)
                        = Some [])"
    using plan nums len zero sp lp wr em
    by (intro exI[of _ plan] exI[of _ ?files2] exI[of _ ?self2]) simp
qed

theorem split_more_parts_witness:
  "fst (split no_programs [''x.fa'' \<mapsto> lf_fasta, ''x.fa.fai'' \<mapsto> lf_fai] x_fa 4
          ''tmp'' ''samtools'') ''tmp/x.fa.part_4'' = Some []
   \<and> (\<exists>self2. snd (split no_programs [''x.fa'' \<mapsto> lf_fasta, ''x.fa.fai'' \<mapsto> lf_fai] x_fa 4
                     ''tmp'' ''samtools'') = Inr self2)"
proof -
  let ?fs = "[''x.fa'' \<mapsto> lf_fasta, ''x.fa.fai'' \<mapsto> lf_fai]"
  have 1: "original_filename x_fa = basename (original_file x_fa)"
    by code_simp
  have 2: "find_index no_programs ?fs x_fa ''samtools''
             = Inr (?fs, x_fa\<lparr>index_file := Some ''x.fa.fai''\<rparr>)"
    by (simp add: find_index_def has_index_def)
  have 3: "read_index (int_max_str_digits no_programs) ?fs
             (index_file (x_fa\<lparr>index_file := Some ''x.fa.fai''\<rparr>)) = Inr lf_index"
    by code_simp
  have 4: "int (length lf_index) < 4" by simp
  have 5: "?fs (original_file x_fa) = Some lf_fasta" by simp
  have 6: "lf_index \<noteq> [] \<and> (\<forall>r\<in>set lf_index. line_bases r \<noteq> 0)" by simp
  have p: "part_files ''tmp'' (original_filename x_fa) 4 ! 3 = ''tmp/x.fa.part_4''"
    by code_simp
  from split_more_parts[OF 1 2 3 4 5, of "''tmp''"] 6 obtain files2 self2 where
    sp: "split no_programs ?fs x_fa 4 ''tmp'' ''samtools'' = (files2, Inr self2)"
    and em: "\<forall>i. length lf_index \<le> i \<and> i < nat 4 \<longrightarrow>
               files2 (part_files ''tmp'' (original_filename x_fa) 4 ! i) = Some []"
    by blast
  from em have "files2 (part_files ''tmp'' (original_filename x_fa) 4 ! 3) = Some []"
    by simp
  then show ?thesis using sp p by simp
qed

text \<open>
  C6 as stated fails: five parts of the three records of the example are planned and
  written, no exception is raised.
\<close>

theorem split_more_parts_counterexample:
  "(case split no_programs [''x.fa'' \<mapsto> lf_fasta, ''x.fa.fai'' \<mapsto> lf_fai] x_fa 5
           ''tmp'' ''samtools'' of
      (files2, r) \<Rightarrow>
        map_sum id files r
          = Inr (Some [''tmp/x.fa.part_1'', ''tmp/x.fa.part_2'', ''tmp/x.fa.part_3'',
                       ''tmp/x.fa.part_4'', ''tmp/x.fa.part_5''])
        \<and> map files2 [''tmp/x.fa.part_1'', ''tmp/x.fa.part_2'', ''tmp/x.fa.part_3'',
                       ''tmp/x.fa.part_4'', ''tmp/x.fa.part_5'']
            = [Some (''>s1'' @ [LF] @ ''ACGTAC'' @ [LF] @ ''GT'' @ [LF]),
               Some (''>s2'' @ [LF] @ ''AC'' @ [LF]),
               Some (''>s3'' @ [LF] @ ''ACGTAC'' @ [LF]),
               Some [], Some []])
   \<and> read_index 4300 [''x.fa'' \<mapsto> lf_fasta, ''x.fa.fai'' \<mapsto> lf_fai] (Some ''x.fa.fai'')
       = Inr lf_index
   \<and> split_plan lf_index 5
       = Inr \<lparr>plan_num_list = [1, 1, 1, 0, 0], plan_splice_pos = [14, 21, 32, 32],
              plan_block_size = [14, 7, 11, 0, 0]\<rparr>"
  by code_simp

end
